theory Spec2Isabelle
  imports Complex_Main "HOL-Library.Multiset"
begin

section \<open>Numbers and their decimal rendering\<close>

text \<open>
  A finite JavaScript number is a double, modelled by the rational it denotes; the
  negative zero is identified with zero. The result of an arithmetic operation is the
  exact result rounded to the nearest double, to the even significand on a tie: \<open>fl\<close>.
  A double has a significand of 53 bits and an exponent of at least \<open>-1022\<close>, so with
  \<open>e = expo q\<close>, the exponent of \<open>q\<close> (\<open>2^e \<le> |q| < 2^(e+1)\<close>), the doubles around \<open>q\<close>
  are the multiples of \<open>2^(max e (-1022) - 52)\<close>. A rounded result beyond \<open>max_double\<close>
  is an infinity.
\<close>

type_synonym number = rat

fun bit_length :: "nat \<Rightarrow> nat" where
  "bit_length n = (if n = 0 then 0 else Suc (bit_length (n div 2)))"

declare bit_length.simps [simp del]

definition pow2 :: "int \<Rightarrow> rat" where
  "pow2 k = (if 0 \<le> k then 2 ^ nat k else 1 / 2 ^ nat (- k))"

definition expo :: "rat \<Rightarrow> int" where
  "expo q =
     (if 1 \<le> \<bar>q\<bar> then int (bit_length (nat \<lfloor>\<bar>q\<bar>\<rfloor>)) - 1
      else - int (bit_length (nat (\<lceil>1 / \<bar>q\<bar>\<rceil> - 1))))"

definition round_ties_even :: "rat \<Rightarrow> int" where
  "round_ties_even y =
     (let n = \<lfloor>y\<rfloor>; r = y - of_int n
      in if r < 1 / 2 then n else if 1 / 2 < r then n + 1 else if even n then n else n + 1)"

definition fl :: "rat \<Rightarrow> number" where
  "fl q =
     (if q = 0 then 0
      else let u = pow2 (max (expo q) (- 1022) - 52)
           in sgn q * (of_int (round_ties_even (\<bar>q\<bar> / u)) * u))"

definition max_double :: number where
  "max_double = (2 ^ 53 - 1) * 2 ^ 971"

text \<open>
  The values of an operation that are not finite numbers. \<open>ZeroDivide\<close> is the quotient
  by a zero divisor (in the engine an infinity or NaN, by the dividend): it is kept
  apart from the infinities of an overflow, so that a guard against the division by
  zero can be stated. The second operand of \<open>/\<close> and \<open>*\<close> is a finite number wherever
  the source uses them.
\<close>

datatype nonfinite = PosInfinity | NegInfinity | NaN | ZeroDivide

definition round_result :: "rat \<Rightarrow> nonfinite + number" where
  "round_result q =
     (let r = fl q
      in if max_double < r then Inl PosInfinity
         else if r < - max_double then Inl NegInfinity
         else Inr r)"

definition js_sub :: "number \<Rightarrow> number \<Rightarrow> nonfinite + number" where
  "js_sub a b = round_result (a - b)"

definition js_div :: "nonfinite + number \<Rightarrow> number \<Rightarrow> nonfinite + number" where
  "js_div a b =
     (if b = 0 then Inl ZeroDivide
      else (case a of
              Inr x \<Rightarrow> round_result (x / b)
            | Inl PosInfinity \<Rightarrow> Inl (if 0 < b then PosInfinity else NegInfinity)
            | Inl NegInfinity \<Rightarrow> Inl (if 0 < b then NegInfinity else PosInfinity)
            | Inl NaN \<Rightarrow> Inl NaN
            | Inl ZeroDivide \<Rightarrow> Inl ZeroDivide))"

definition js_mul :: "nonfinite + number \<Rightarrow> number \<Rightarrow> nonfinite + number" where
  "js_mul a b =
     (case a of
        Inr x \<Rightarrow> round_result (x * b)
      | Inl PosInfinity \<Rightarrow> Inl (if b = 0 then NaN else if 0 < b then PosInfinity else NegInfinity)
      | Inl NegInfinity \<Rightarrow> Inl (if b = 0 then NaN else if 0 < b then NegInfinity else PosInfinity)
      | Inl NaN \<Rightarrow> Inl NaN
      | Inl ZeroDivide \<Rightarrow> Inl ZeroDivide)"

definition digit_char :: "nat \<Rightarrow> char" where
  "digit_char d = char_of (48 + d)"

fun digits_of :: "nat \<Rightarrow> string" where
  "digits_of n = (if n < 10 then [digit_char n] else digits_of (n div 10) @ [digit_char (n mod 10)])"

declare digits_of.simps [simp del]

text \<open>
  \<open>Number.prototype.toFixed(f)\<close> as ECMAScript defines it, for \<open>0 \<le> f \<le> 100\<close>
  (the source only calls it with 2): the sign is split off; a magnitude of \<open>10^21\<close> or
  more is printed by the engine's \<open>Number::toString\<close> (exponent notation, which depends
  on the double and is taken as the parameter \<open>ts\<close>); otherwise \<open>n\<close> is the integer
  nearest to \<open>x * 10^f\<close>, the larger one on a tie, and \<open>fixed_digits\<close> pads its digits
  with zeros to \<open>f + 1\<close> places and puts a point before the last \<open>f\<close>.
\<close>

definition fixed_digits :: "nat \<Rightarrow> nat \<Rightarrow> string" where
  "fixed_digits n f =
     (let m = (if n = 0 then ''0'' else digits_of n)
      in if f \<noteq> 0
         then let k = length m;
                  z = (if k \<le> f then replicate (f + 1 - k) CHR ''0'' @ m else m);
                  k' = length z
              in take (k' - f) z @ ''.'' @ drop (k' - f) z
         else m)"

definition toFixed :: "(number \<Rightarrow> string) \<Rightarrow> number \<Rightarrow> nat \<Rightarrow> string" where
  "toFixed ts x f =
     (let s = (if x < 0 then ''-'' else []);
          x' = (if x < 0 then - x else x)
      in if 10 ^ 21 \<le> x' then s @ ts x'
         else s @ fixed_digits (nat \<lfloor>x' * 10 ^ f + 1 / 2\<rfloor>) f)"

section \<open>The card's formatting helpers (TokenCard.tsx)\<close>

text \<open>
  A \<open>number | null | undefined\<close> argument is a \<open>number option\<close>: \<open>None\<close> is null or
  undefined. The quotient of a double by \<open>1e9\<close>, \<open>1e6\<close> or \<open>1e3\<close> is a finite double: the
  exact quotient, rounded.
\<close>

definition formatCurrency :: "(number \<Rightarrow> string) \<Rightarrow> number option \<Rightarrow> string" where
  "formatCurrency ts value =
     (case value of
        None \<Rightarrow> ''$0''
      | Some v \<Rightarrow>
          if 1000000000 \<le> v then ''$'' @ toFixed ts (fl (v / 1000000000)) 2 @ ''B''
          else if 1000000 \<le> v then ''$'' @ toFixed ts (fl (v / 1000000)) 2 @ ''M''
          else if 1000 \<le> v then ''$'' @ toFixed ts (fl (v / 1000)) 2 @ ''K''
          else ''$'' @ toFixed ts v 2)"

definition formatPercentage :: "(number \<Rightarrow> string) \<Rightarrow> number option \<Rightarrow> string" where
  "formatPercentage ts value =
     (case value of
        None \<Rightarrow> ''0%''
      | Some v \<Rightarrow> (if 0 \<le> v then ''+'' else []) @ toFixed ts v 2 @ ''%'')"

section \<open>The page's formatting and the TVL change (Protocols.tsx)\<close>

datatype format_type = Currency | Percentage

definition formatNumber :: "(number \<Rightarrow> string) \<Rightarrow> number \<Rightarrow> format_type \<Rightarrow> string" where
  "formatNumber ts value type =
     (if type = Percentage then (if 0 \<le> value then ''+'' else []) @ toFixed ts value 2 @ ''%''
      else if 1000000000 \<le> value then ''$'' @ toFixed ts (fl (value / 1000000000)) 2 @ ''B''
      else if 1000000 \<le> value then ''$'' @ toFixed ts (fl (value / 1000000)) 2 @ ''M''
      else if 1000 \<le> value then ''$'' @ toFixed ts (fl (value / 1000)) 2 @ ''K''
      else ''$'' @ toFixed ts value 2)"

text \<open>
  \<open>calculateTvlChange(current, previous)\<close>: \<open>!previous\<close> holds when \<open>previous\<close> is
  undefined (\<open>None\<close>) or zero. The three operations are those of the doubles, each rounded.
\<close>

definition calculateTvlChange :: "number \<Rightarrow> number option \<Rightarrow> nonfinite + number" where
  "calculateTvlChange current previous =
     (case previous of
        None \<Rightarrow> Inr 0
      | Some p \<Rightarrow>
          if p = 0 then Inr 0
          else js_mul (js_div (js_sub current p) p) 100)"

section \<open>Strings\<close>

text \<open>
  A string is a list of code units. \<open>String.prototype.toLowerCase\<close> is the engine's
  Unicode case mapping: the functions that call it take it as the parameter
  \<open>toLowerCase\<close>, and what is proved of them holds for every such function.
  \<open>ascii_lower\<close> is its restriction to the ASCII letters and \<open>latin1_lower\<close> its
  restriction to the code units below 256 (ASCII and the Latin-1 letters), used to
  evaluate the merge on such names.
\<close>

definition lower_char :: "char \<Rightarrow> char" where
  "lower_char c =
     (let n = (of_char c :: nat) in if 65 \<le> n \<and> n \<le> 90 then char_of (n + 32) else c)"

definition ascii_lower :: "string \<Rightarrow> string" where
  "ascii_lower s = map lower_char s"

definition latin1_lower_char :: "char \<Rightarrow> char" where
  "latin1_lower_char c =
     (let n = (of_char c :: nat)
      in if (65 \<le> n \<and> n \<le> 90) \<or> (192 \<le> n \<and> n \<le> 222 \<and> n \<noteq> 215) then char_of (n + 32)
         else c)"

definition latin1_lower :: "string \<Rightarrow> string" where
  "latin1_lower s = map latin1_lower_char s"

text \<open>\<open>s.split('.')\<close>: the pieces between the dots, one piece more than there are dots.\<close>

fun split_dot :: "string \<Rightarrow> string list" where
  "split_dot [] = [[]]"
| "split_dot (c # cs) =
     (if c = CHR ''.'' then [] # split_dot cs
      else (case split_dot cs of [] \<Rightarrow> [[c]] | w # ws \<Rightarrow> (c # w) # ws))"

text \<open>The order of two strings under \<open><\<close>: lexicographic on the code units.\<close>

fun str_lt :: "string \<Rightarrow> string \<Rightarrow> bool" where
  "str_lt [] [] = False"
| "str_lt [] (y # ys) = True"
| "str_lt (x # xs) [] = False"
| "str_lt (x # xs) (y # ys) =
     ((of_char x :: nat) < of_char y \<or> (x = y \<and> str_lt xs ys))"

section \<open>Dynamic values, property access and comparison\<close>

text \<open>
  The sort callback reads a row through a key computed at run time, so the rows are also
  seen as dynamic values. \<open>TypeError\<close> is the exception the engine raises on a property
  read of \<open>undefined\<close>; \<open>NotModelled\<close> marks the two places the model stops: a property
  read on a primitive string or number, and the coercion of a string to a number when a
  string meets a number under \<open><\<close>. Members inherited from \<open>Object.prototype\<close> are
  not modelled: an object has its own properties only. There is no \<open>null\<close> among the
  values: no field of a row is built as \<open>null\<close>, and a \<open>null\<close> that the response
  carries in \<open>slug\<close> or \<open>category\<close> is read as an absent field.
\<close>

datatype js_error = TypeError | NotModelled

datatype jsval = Undefined | Num number | Str string | Obj "(string \<times> jsval) list"

definition typeof :: "jsval \<Rightarrow> string" where
  "typeof v =
     (case v of Undefined \<Rightarrow> ''undefined'' | Num _ \<Rightarrow> ''number''
      | Str _ \<Rightarrow> ''string'' | Obj _ \<Rightarrow> ''object'')"

definition prop_get :: "jsval \<Rightarrow> string \<Rightarrow> js_error + jsval" where
  "prop_get obj k =
     (case obj of
        Obj fs \<Rightarrow> Inr (case map_of fs k of None \<Rightarrow> Undefined | Some v \<Rightarrow> v)
      | Undefined \<Rightarrow> Inl TypeError
      | Num _ \<Rightarrow> Inl NotModelled
      | Str _ \<Rightarrow> Inl NotModelled)"

text \<open>\<open>keys.reduce((obj, key) => obj[key], start)\<close>\<close>

fun reduce_path :: "string list \<Rightarrow> jsval \<Rightarrow> js_error + jsval" where
  "reduce_path [] obj = Inr obj"
| "reduce_path (k # ks) obj =
     (case prop_get obj k of Inl e \<Rightarrow> Inl e | Inr v \<Rightarrow> reduce_path ks v)"

text \<open>
  \<open>x < y\<close> (the abstract relational comparison): an object is first turned into the
  primitive string \<open>[object Object]\<close>; two strings are compared as strings; otherwise both
  sides become numbers, \<open>undefined\<close> becomes NaN and every comparison with NaN is false.
  \<open>x > y\<close> is \<open>y < x\<close>.
\<close>

definition to_primitive :: "jsval \<Rightarrow> jsval" where
  "to_primitive v = (case v of Obj _ \<Rightarrow> Str ''[object Object]'' | _ \<Rightarrow> v)"

fun prim_lt :: "jsval \<Rightarrow> jsval \<Rightarrow> js_error + bool" where
  "prim_lt (Str s) (Str t) = Inr (str_lt s t)"
| "prim_lt Undefined _ = Inr False"
| "prim_lt _ Undefined = Inr False"
| "prim_lt (Num a) (Num b) = Inr (a < b)"
| "prim_lt _ _ = Inl NotModelled"

definition js_lt :: "jsval \<Rightarrow> jsval \<Rightarrow> js_error + bool" where
  "js_lt x y = prim_lt (to_primitive x) (to_primitive y)"

definition js_gt :: "jsval \<Rightarrow> jsval \<Rightarrow> js_error + bool" where
  "js_gt x y = js_lt y x"

section \<open>Array.prototype.sort and the arrays it mutates\<close>

text \<open>
  ECMAScript leaves the sequence of comparator calls to the engine and asks for a stable
  result when the comparator is consistent; with an inconsistent comparator the order is
  the engine's choice. The model is one conforming engine, a stable insertion sort: \<open>x\<close>
  goes before \<open>y\<close> unless the comparator returns a positive number for \<open>(x, y)\<close>. An
  exception of the comparator ends the sort.
\<close>

fun insert_by :: "('a \<Rightarrow> 'a \<Rightarrow> js_error + number) \<Rightarrow> 'a \<Rightarrow> 'a list \<Rightarrow> js_error + 'a list" where
  "insert_by cmp x [] = Inr [x]"
| "insert_by cmp x (y # ys) =
     (case cmp x y of
        Inl e \<Rightarrow> Inl e
      | Inr c \<Rightarrow>
          if c \<le> 0 then Inr (x # y # ys)
          else (case insert_by cmp x ys of Inl e \<Rightarrow> Inl e | Inr zs \<Rightarrow> Inr (y # zs)))"

fun array_sort :: "('a \<Rightarrow> 'a \<Rightarrow> js_error + number) \<Rightarrow> 'a list \<Rightarrow> js_error + 'a list" where
  "array_sort cmp [] = Inr []"
| "array_sort cmp (x # xs) =
     (case array_sort cmp xs of Inl e \<Rightarrow> Inl e | Inr ys \<Rightarrow> insert_by cmp x ys)"

text \<open>
  Another conforming engine: the insertion sort that takes the elements from the left.
  The two agree on a consistent comparator and differ on the table's callback, which
  answers \<open>-1\<close> for two rows of equal value in both orders: on two such rows \<open>[a, b]\<close>
  the first gives \<open>[a, b]\<close> and the second \<open>[b, a]\<close>.
\<close>

definition array_sort_from_left ::
  "('a \<Rightarrow> 'a \<Rightarrow> js_error + number) \<Rightarrow> 'a list \<Rightarrow> js_error + 'a list" where
  "array_sort_from_left cmp xs = array_sort cmp (rev xs)"

text \<open>
  Arrays are objects with identity: a store holds the contents of every array, and a
  reference is an index into it. \<open>[...arr]\<close> allocates a new array with the same elements;
  \<open>arr.sort(cmp)\<close> writes the sorted elements back into \<open>arr\<close> itself and returns \<open>arr\<close>
  (nothing is written when the comparator throws).
\<close>

type_synonym 'a store = "'a list list"

definition deref :: "'a store \<Rightarrow> nat \<Rightarrow> 'a list" where
  "deref h r = (if r < length h then h ! r else [])"

definition spread :: "'a store \<Rightarrow> nat \<Rightarrow> nat \<times> 'a store" where
  "spread h r = (length h, h @ [deref h r])"

definition sort_in_place ::
  "('a \<Rightarrow> 'a \<Rightarrow> js_error + number) \<Rightarrow> 'a store \<Rightarrow> nat \<Rightarrow> (js_error + nat) \<times> 'a store" where
  "sort_in_place cmp h r =
     (case array_sort cmp (deref h r) of
        Inl e \<Rightarrow> (Inl e, h)
      | Inr ys \<Rightarrow> (Inr r, h[r := ys]))"

section \<open>The protocol rows (Protocols.tsx)\<close>

record fees_group =
  fees_24h :: number
  fees_7d :: number
  fees_30d :: number
  fees_monthlyAvg1y :: number

record revenue_group =
  revenue_24h :: number
  revenue_7d :: number
  revenue_30d :: number
  revenue_1y :: number

record holders_group =
  holdersRevenue_24h :: number
  holdersRevenue_30d :: number

record volume_group =
  volume_24h :: number
  volume_change7d :: number
  volume_cumulative :: number

text \<open>
  The row the fetch builds, field by field as its object literal. \<open>slug\<close> and \<open>category\<close>
  are copied from the response as they are, so they may be absent.
\<close>

record Protocol =
  name :: string
  symbol :: string
  slug :: "string option"
  tvl :: number
  tvlPrevDay :: number
  tvlPrevMonth :: number
  mcap :: number
  fees :: fees_group
  revenue :: revenue_group
  userFees24h :: number
  cumulativeFees :: number
  holdersRevenue :: holders_group
  treasuryRevenue24h :: number
  supplyRevenue :: number
  volume :: volume_group
  logo :: string
  category :: "string option"

definition opt_str :: "string option \<Rightarrow> jsval" where
  "opt_str x = (case x of None \<Rightarrow> Undefined | Some s \<Rightarrow> Str s)"

text \<open>The row as the object the callback indexes: its own properties, by name.\<close>

definition row_object :: "Protocol \<Rightarrow> jsval" where
  "row_object p = Obj
     [(''name'', Str (name p)),
      (''symbol'', Str (symbol p)),
      (''slug'', opt_str (slug p)),
      (''tvl'', Num (tvl p)),
      (''tvlPrevDay'', Num (tvlPrevDay p)),
      (''tvlPrevMonth'', Num (tvlPrevMonth p)),
      (''mcap'', Num (mcap p)),
      (''fees'', Obj
         [(''24h'', Num (fees_24h (fees p))),
          (''7d'', Num (fees_7d (fees p))),
          (''30d'', Num (fees_30d (fees p))),
          (''monthlyAvg1y'', Num (fees_monthlyAvg1y (fees p)))]),
      (''revenue'', Obj
         [(''24h'', Num (revenue_24h (revenue p))),
          (''7d'', Num (revenue_7d (revenue p))),
          (''30d'', Num (revenue_30d (revenue p))),
          (''1y'', Num (revenue_1y (revenue p)))]),
      (''userFees24h'', Num (userFees24h p)),
      (''cumulativeFees'', Num (cumulativeFees p)),
      (''holdersRevenue'', Obj
         [(''24h'', Num (holdersRevenue_24h (holdersRevenue p))),
          (''30d'', Num (holdersRevenue_30d (holdersRevenue p)))]),
      (''treasuryRevenue24h'', Num (treasuryRevenue24h p)),
      (''supplyRevenue'', Num (supplyRevenue p)),
      (''volume'', Obj
         [(''24h'', Num (volume_24h (volume p))),
          (''change7d'', Num (volume_change7d (volume p))),
          (''cumulative'', Num (volume_cumulative (volume p)))]),
      (''logo'', Str (logo p)),
      (''category'', opt_str (category p))]"

section \<open>Sorting the table (Protocols.tsx)\<close>

datatype sort_direction = Asc | Desc

record sort_config =
  key :: string
  direction :: sort_direction

record page_state =
  protocols :: "Protocol list"
  loading :: bool
  error :: "string option"
  sortConfig :: sort_config

definition initial_state :: page_state where
  "initial_state =
     \<lparr>protocols = [], loading = True, error = None,
      sortConfig = \<lparr>key = ''tvl'', direction = Desc\<rparr>\<rparr>"

text \<open>\<open>sortData(key)\<close>: the updater passed to \<open>setSortConfig\<close>, applied to the state.\<close>

definition sortData :: "string \<Rightarrow> page_state \<Rightarrow> page_state" where
  "sortData k s =
     s\<lparr>sortConfig :=
         \<lparr>key = k,
          direction =
            (if key (sortConfig s) = k \<and> direction (sortConfig s) = Desc then Asc else Desc)\<rparr>\<rparr>"

text \<open>
  The two values the callback compares: \<open>a[key]\<close> and \<open>b[key]\<close>, replaced by the walk
  along the split key when \<open>typeof a[key]\<close> is \<open>object\<close>.
\<close>

definition sort_values :: "string \<Rightarrow> Protocol \<Rightarrow> Protocol \<Rightarrow> js_error + (jsval \<times> jsval)" where
  "sort_values k a b =
     (case prop_get (row_object a) k of
        Inl e \<Rightarrow> Inl e
      | Inr aValue \<Rightarrow>
          (case prop_get (row_object b) k of
             Inl e \<Rightarrow> Inl e
           | Inr bValue \<Rightarrow>
               if typeof aValue = ''object''
               then (let keys = split_dot k
                     in case reduce_path keys (row_object a) of
                          Inl e \<Rightarrow> Inl e
                        | Inr aValue' \<Rightarrow>
                            (case reduce_path keys (row_object b) of
                               Inl e \<Rightarrow> Inl e
                             | Inr bValue' \<Rightarrow> Inr (aValue', bValue')))
               else Inr (aValue, bValue)))"

text \<open>The callback of \<open>getSortedProtocols\<close>.\<close>

definition compare_rows :: "sort_config \<Rightarrow> Protocol \<Rightarrow> Protocol \<Rightarrow> js_error + number" where
  "compare_rows cfg a b =
     (case sort_values (key cfg) a b of
        Inl e \<Rightarrow> Inl e
      | Inr (aValue, bValue) \<Rightarrow>
          if direction cfg = Asc
          then (case js_gt aValue bValue of
                  Inl e \<Rightarrow> Inl e
                | Inr g \<Rightarrow> Inr (if g then 1 else - 1))
          else (case js_lt aValue bValue of
                  Inl e \<Rightarrow> Inl e
                | Inr l \<Rightarrow> Inr (if l then 1 else - 1)))"

text \<open>
  \<open>getSortedProtocols()\<close> on the store: \<open>[...protocols]\<close> is a new array, sorted in place
  and returned. \<open>getSortedProtocols\<close> is the content of that array, as the table maps
  over it.
\<close>

definition getSortedProtocols_store ::
  "sort_config \<Rightarrow> Protocol store \<Rightarrow> nat \<Rightarrow> (js_error + nat) \<times> Protocol store" where
  "getSortedProtocols_store cfg h r =
     (case spread h r of (c, h') \<Rightarrow> sort_in_place (compare_rows cfg) h' c)"

definition getSortedProtocols :: "page_state \<Rightarrow> js_error + Protocol list" where
  "getSortedProtocols s = array_sort (compare_rows (sortConfig s)) (protocols s)"

text \<open>
  The callback never returns 0, so it is not a consistent comparator and the order of the
  derived list is the engine's choice. \<open>getSortedProtocols_with\<close> is the derivation with
  the engine's sort as the parameter \<open>srt\<close>; \<open>getSortedProtocols\<close> is its instance with
  \<open>array_sort\<close>.
\<close>

definition getSortedProtocols_with ::
  "((Protocol \<Rightarrow> Protocol \<Rightarrow> js_error + number) \<Rightarrow> Protocol list \<Rightarrow> js_error + Protocol list)
     \<Rightarrow> page_state \<Rightarrow> js_error + Protocol list" where
  "getSortedProtocols_with srt s = srt (compare_rows (sortConfig s)) (protocols s)"

text \<open>
  The cell of the TVL change of a row, as the table renders it: \<open>formatNumber\<close> of the
  change; \<open>toFixed\<close> of an infinity or of NaN is its name, and NaN is not \<open>>= 0\<close>. The
  cell of a quotient by zero is not rendered here (\<open>None\<close>): it would depend on the
  dividend.
\<close>

definition tvl_change_cell :: "(number \<Rightarrow> string) \<Rightarrow> Protocol \<Rightarrow> string option" where
  "tvl_change_cell ts p =
     (case calculateTvlChange (tvl p) (Some (tvlPrevDay p)) of
        Inr tvlChange24h \<Rightarrow> Some (formatNumber ts tvlChange24h Percentage)
      | Inl PosInfinity \<Rightarrow> Some ''+Infinity%''
      | Inl NegInfinity \<Rightarrow> Some ''-Infinity%''
      | Inl NaN \<Rightarrow> Some ''NaN%''
      | Inl ZeroDivide \<Rightarrow> None)"

section \<open>The fetch cycle (Protocols.tsx)\<close>

text \<open>
  The decoded bodies have the documented shapes: an array of protocol objects, and an
  object whose member \<open>protocols\<close> is an array of fee objects. Every documented field
  of an object may be absent (or null): \<open>None\<close>. \<open>x || d\<close> is \<open>d\<close> when \<open>x\<close> is
  absent, zero or the empty string.
\<close>

record raw_protocol =
  rp_name :: "string option"
  rp_symbol :: "string option"
  rp_slug :: "string option"
  rp_tvl :: "number option"
  rp_tvlPrevDay :: "number option"
  rp_tvlPrevMonth :: "number option"
  rp_mcap :: "number option"
  rp_logo :: "string option"
  rp_category :: "string option"

record raw_fees =
  rf_name :: "string option"
  rf_total24h :: "number option"
  rf_total7d :: "number option"
  rf_total30d :: "number option"
  rf_monthlyAvg1y :: "number option"
  rf_revenue24h :: "number option"
  rf_revenue7d :: "number option"
  rf_revenue30d :: "number option"
  rf_revenue1y :: "number option"
  rf_userFees24h :: "number option"
  rf_cumulativeFees :: "number option"
  rf_holdersRevenue24h :: "number option"
  rf_holdersRevenue30d :: "number option"
  rf_treasuryRevenue24h :: "number option"
  rf_supplyRevenue :: "number option"
  rf_volume24h :: "number option"
  rf_volumeChange7d :: "number option"
  rf_cumulativeVolume :: "number option"

definition num_or :: "number option \<Rightarrow> number \<Rightarrow> number" where
  "num_or x d = (case x of None \<Rightarrow> d | Some v \<Rightarrow> if v = 0 then d else v)"

definition str_or :: "string option \<Rightarrow> string \<Rightarrow> string" where
  "str_or x d = (case x of None \<Rightarrow> d | Some v \<Rightarrow> if v = [] then d else v)"

text \<open>The empty object \<open>{}\<close> that stands in for a missing fee record.\<close>

definition empty_fees :: raw_fees where
  "empty_fees =
     \<lparr>rf_name = None, rf_total24h = None, rf_total7d = None, rf_total30d = None,
      rf_monthlyAvg1y = None, rf_revenue24h = None, rf_revenue7d = None,
      rf_revenue30d = None, rf_revenue1y = None, rf_userFees24h = None,
      rf_cumulativeFees = None, rf_holdersRevenue24h = None, rf_holdersRevenue30d = None,
      rf_treasuryRevenue24h = None, rf_supplyRevenue = None, rf_volume24h = None,
      rf_volumeChange7d = None, rf_cumulativeVolume = None\<rparr>"

text \<open>
  What a \<open>throw\<close> carries: an \<open>Error\<close> instance with its message, or some other value.
  The text of a TypeError is the engine's; \<open>tmsg\<close> gives it for the member that was read.
\<close>

datatype thrown = ErrorObject string | NonError

definition failed_message :: string where
  "failed_message = ''Failed to fetch protocol data''"

fun fee_entries ::
  "(string \<Rightarrow> string) \<Rightarrow> (string \<Rightarrow> string) \<Rightarrow> raw_fees list \<Rightarrow> thrown + (string \<times> raw_fees) list" where
  "fee_entries tmsg toLowerCase [] = Inr []"
| "fee_entries tmsg toLowerCase (p # ps) =
     (case rf_name p of
        None \<Rightarrow> Inl (ErrorObject (tmsg ''toLowerCase''))
      | Some n \<Rightarrow>
          (case fee_entries tmsg toLowerCase ps of
             Inl e \<Rightarrow> Inl e
           | Inr es \<Rightarrow> Inr ((toLowerCase n, p) # es)))"

text \<open>\<open>new Map(entries)\<close>: a later entry replaces an earlier one with the same key.\<close>

definition new_Map :: "(string \<times> raw_fees) list \<Rightarrow> (string \<rightharpoonup> raw_fees)" where
  "new_Map es = foldl (\<lambda>m (k, v). m(k \<mapsto> v)) Map.empty es"

text \<open>The callback of \<open>.map\<close>: one row from one retained protocol.\<close>

definition transform ::
  "(string \<Rightarrow> string) \<Rightarrow> (string \<Rightarrow> string) \<Rightarrow> (string \<rightharpoonup> raw_fees) \<Rightarrow> raw_protocol
     \<Rightarrow> thrown + Protocol" where
  "transform tmsg toLowerCase feesMap p =
     (case rp_name p of
        None \<Rightarrow> Inl (ErrorObject (tmsg ''toLowerCase''))
      | Some n \<Rightarrow>
          (let feesInfo = (case feesMap (toLowerCase n) of None \<Rightarrow> empty_fees | Some f \<Rightarrow> f)
           in Inr
             \<lparr>name = n,
              symbol = str_or (rp_symbol p) [],
              slug = rp_slug p,
              tvl = num_or (rp_tvl p) 0,
              tvlPrevDay = num_or (rp_tvlPrevDay p) 0,
              tvlPrevMonth = num_or (rp_tvlPrevMonth p) 0,
              mcap = num_or (rp_mcap p) 0,
              fees =
                \<lparr>fees_24h = num_or (rf_total24h feesInfo) 0,
                 fees_7d = num_or (rf_total7d feesInfo) 0,
                 fees_30d = num_or (rf_total30d feesInfo) 0,
                 fees_monthlyAvg1y = num_or (rf_monthlyAvg1y feesInfo) 0\<rparr>,
              revenue =
                \<lparr>revenue_24h = num_or (rf_revenue24h feesInfo) 0,
                 revenue_7d = num_or (rf_revenue7d feesInfo) 0,
                 revenue_30d = num_or (rf_revenue30d feesInfo) 0,
                 revenue_1y = num_or (rf_revenue1y feesInfo) 0\<rparr>,
              userFees24h = num_or (rf_userFees24h feesInfo) 0,
              cumulativeFees = num_or (rf_cumulativeFees feesInfo) 0,
              holdersRevenue =
                \<lparr>holdersRevenue_24h = num_or (rf_holdersRevenue24h feesInfo) 0,
                 holdersRevenue_30d = num_or (rf_holdersRevenue30d feesInfo) 0\<rparr>,
              treasuryRevenue24h = num_or (rf_treasuryRevenue24h feesInfo) 0,
              supplyRevenue = num_or (rf_supplyRevenue feesInfo) 0,
              volume =
                \<lparr>volume_24h = num_or (rf_volume24h feesInfo) 0,
                 volume_change7d = num_or (rf_volumeChange7d feesInfo) 0,
                 volume_cumulative = num_or (rf_cumulativeVolume feesInfo) 0\<rparr>,
              logo = str_or (rp_logo p) [],
              category = rp_category p\<rparr>))"

fun map_throw :: "('a \<Rightarrow> thrown + 'b) \<Rightarrow> 'a list \<Rightarrow> thrown + 'b list" where
  "map_throw f [] = Inr []"
| "map_throw f (x # xs) =
     (case f x of
        Inl e \<Rightarrow> Inl e
      | Inr y \<Rightarrow> (case map_throw f xs of Inl e \<Rightarrow> Inl e | Inr ys \<Rightarrow> Inr (y # ys)))"

text \<open>
  The merge of the two decoded bodies: the fee lookup table, the category filter, one row
  per retained protocol. \<open>feesProtocols\<close> is the member \<open>feesData.protocols\<close>, absent when
  the body has none.
\<close>

definition merge_data ::
  "(string \<Rightarrow> string) \<Rightarrow> (string \<Rightarrow> string) \<Rightarrow> raw_protocol list \<Rightarrow> raw_fees list option \<Rightarrow> thrown + Protocol list" where
  "merge_data tmsg toLowerCase protocolsData feesProtocols =
     (case feesProtocols of
        None \<Rightarrow> Inl (ErrorObject (tmsg ''map''))
      | Some fs \<Rightarrow>
          (case fee_entries tmsg toLowerCase fs of
             Inl e \<Rightarrow> Inl e
           | Inr es \<Rightarrow>
               map_throw (transform tmsg toLowerCase (new_Map es))
                 (filter (\<lambda>p. rp_category p = Some ''Liquid Staking'') protocolsData)))"

text \<open>
  A response: its \<open>ok\<close> flag and what awaiting \<open>json()\<close> gives, a decoded body or a
  rejection. The cycle takes what awaiting \<open>Promise.all\<close> gives: a rejection, or both
  responses.
\<close>

record 'a response =
  ok :: bool
  json :: "thrown + 'a"

definition try_block ::
  "(string \<Rightarrow> string) \<Rightarrow> (string \<Rightarrow> string)
     \<Rightarrow> thrown + (raw_protocol list response \<times> raw_fees list option response)
     \<Rightarrow> thrown + Protocol list" where
  "try_block tmsg toLowerCase settled =
     (case settled of
        Inl e \<Rightarrow> Inl e
      | Inr (protocolsResponse, feesResponse) \<Rightarrow>
          if \<not> ok protocolsResponse \<or> \<not> ok feesResponse
          then Inl (ErrorObject failed_message)
          else (case json protocolsResponse of
                  Inl e \<Rightarrow> Inl e
                | Inr protocolsData \<Rightarrow>
                    (case json feesResponse of
                       Inl e \<Rightarrow> Inl e
                     | Inr feesProtocols \<Rightarrow> merge_data tmsg toLowerCase protocolsData feesProtocols)))"

definition catch_message :: "thrown \<Rightarrow> string" where
  "catch_message err = (case err of ErrorObject m \<Rightarrow> m | NonError \<Rightarrow> failed_message)"

definition fetchProtocolsData ::
  "(string \<Rightarrow> string) \<Rightarrow> (string \<Rightarrow> string)
     \<Rightarrow> thrown + (raw_protocol list response \<times> raw_fees list option response)
     \<Rightarrow> page_state \<Rightarrow> page_state" where
  "fetchProtocolsData tmsg toLowerCase settled s =
     (case try_block tmsg toLowerCase settled of
        Inr liquidStakingProtocols \<Rightarrow> s\<lparr>protocols := liquidStakingProtocols, loading := False\<rparr>
      | Inl err \<Rightarrow> s\<lparr>error := Some (catch_message err), loading := False\<rparr>)"

text \<open>Which of the three branches the page renders; \<open>if (error)\<close> is false on an empty message.\<close>

datatype page_view = LoadingView | ErrorView string | TableView "js_error + Protocol list"

definition render_page :: "page_state \<Rightarrow> page_view" where
  "render_page s =
     (if loading s then LoadingView
      else (case error s of
              None \<Rightarrow> TableView (getSortedProtocols s)
            | Some m \<Rightarrow> if m = [] then TableView (getSortedProtocols s) else ErrorView m))"

section \<open>The platform list of the card (TokenCard.tsx)\<close>

text \<open>
  Modelled from the spec: the type \<open>Platform\<close> of \<open>../types\<close>, which is not among the
  sources: a name, a fee percentage, a minimum stake and an APY percentage.
\<close>

record Platform =
  platform_name :: string
  fee :: number
  minStake :: number
  apy :: number

text \<open>
  The callback \<open>a.fee - b.fee\<close>. The sort reads the sign of the difference only, and the
  rounded difference of two doubles has the sign of the exact one, which stands for it.
\<close>

definition platform_cmp :: "Platform \<Rightarrow> Platform \<Rightarrow> js_error + number" where
  "platform_cmp a b = Inr (fee a - fee b)"

definition sortedPlatforms_store ::
  "Platform store \<Rightarrow> nat \<Rightarrow> (js_error + nat) \<times> Platform store" where
  "sortedPlatforms_store h r =
     (case spread h r of (c, h') \<Rightarrow> sort_in_place platform_cmp h' c)"

definition sortedPlatforms :: "Platform list \<Rightarrow> js_error + Platform list" where
  "sortedPlatforms platforms = array_sort platform_cmp platforms"

text \<open>
  The panel: nothing while \<open>showPlatforms\<close> is false, else one entry per sorted platform,
  in order, with the flag \<open>index === 0\<close> that puts the "Best Rate" badge on it.
\<close>

definition render_platforms :: "bool \<Rightarrow> Platform list \<Rightarrow> js_error + (Platform \<times> bool) list" where
  "render_platforms showPlatforms platforms =
     (if showPlatforms
      then (case sortedPlatforms platforms of
              Inl e \<Rightarrow> Inl e
            | Inr ps \<Rightarrow> Inr (map (\<lambda>(index, platform). (platform, index = 0)) (enumerate 0 ps)))
      else Inr [])"

section \<open>Notions used to state the properties\<close>

text \<open>The value of \<open>row[k]\<close>: the own property \<open>k\<close> of the row, \<open>undefined\<close> when it has none.\<close>

definition row_prop :: "Protocol \<Rightarrow> string \<Rightarrow> jsval" where
  "row_prop p k =
     (case row_object p of
        Obj fs \<Rightarrow> (case map_of fs k of None \<Rightarrow> Undefined | Some v \<Rightarrow> v)
      | _ \<Rightarrow> Undefined)"

text \<open>The names of the own properties of a row.\<close>

definition row_keys :: "string list" where
  "row_keys = [''name'', ''symbol'', ''slug'', ''tvl'', ''tvlPrevDay'', ''tvlPrevMonth'', ''mcap'',
     ''fees'', ''revenue'', ''userFees24h'', ''cumulativeFees'', ''holdersRevenue'',
     ''treasuryRevenue24h'', ''supplyRevenue'', ''volume'', ''logo'', ''category'']"

text \<open>
  What is asked of an engine's sort to speak of the order it derives with a comparator
  that is not consistent. The answers of \<open>cmp\<close> follow the key \<open>f\<close> when every answer
  agrees with the order of the keys: a negative answer is only given when the key of the
  first is at most the key of the second, a positive one only when it is at least that
  key, and 0 only on equal keys; on equal keys any answer but 0 may be given, and need
  not be the same in both orders. A comparison sort returns, for a comparator whose
  answers follow a key, a permutation of its input in the order of that key: so do
  insertion, merge and binary-insertion sorts, which only ever place an element before
  another on an answer of the comparator.
\<close>

definition answers_follow ::
  "(Protocol \<Rightarrow> Protocol \<Rightarrow> js_error + number) \<Rightarrow> (Protocol \<Rightarrow> number) \<Rightarrow> bool" where
  "answers_follow cmp f \<longleftrightarrow>
     (\<forall>x y. \<exists>c. cmp x y = Inr c \<and> (c < 0 \<longrightarrow> f x \<le> f y) \<and> (0 < c \<longrightarrow> f y \<le> f x) \<and>
        (c = 0 \<longrightarrow> f x = f y))"

definition comparison_sort ::
  "((Protocol \<Rightarrow> Protocol \<Rightarrow> js_error + number) \<Rightarrow> Protocol list \<Rightarrow> js_error + Protocol list)
     \<Rightarrow> bool" where
  "comparison_sort srt \<longleftrightarrow>
     (\<forall>cmp f xs. answers_follow cmp f \<longrightarrow>
        (\<exists>ys. srt cmp xs = Inr ys \<and> mset ys = mset xs \<and> sorted (map f ys)))"

text \<open>
  "To two decimal places", in the words of the specification: the hundredth nearest to
  the magnitude (the upper one on a tie), written as the digits of its whole part, a
  point and two digits, after a minus sign for a negative number.
\<close>

definition two_decimals :: "number \<Rightarrow> string" where
  "two_decimals x =
     (let n = nat \<lfloor>\<bar>x\<bar> * 100 + 1 / 2\<rfloor>
      in (if x < 0 then ''-'' else []) @ digits_of (n div 100) @ ''.'' @
         [digit_char (n div 10 mod 10), digit_char (n mod 10)])"

text \<open>A row without fee data: every field that comes from the fee record is zero.\<close>

definition all_fee_fields_zero :: "Protocol \<Rightarrow> bool" where
  "all_fee_fields_zero row \<longleftrightarrow>
     fees row = \<lparr>fees_24h = 0, fees_7d = 0, fees_30d = 0, fees_monthlyAvg1y = 0\<rparr> \<and>
     revenue row = \<lparr>revenue_24h = 0, revenue_7d = 0, revenue_30d = 0, revenue_1y = 0\<rparr> \<and>
     holdersRevenue row = \<lparr>holdersRevenue_24h = 0, holdersRevenue_30d = 0\<rparr> \<and>
     volume row = \<lparr>volume_24h = 0, volume_change7d = 0, volume_cumulative = 0\<rparr> \<and>
     userFees24h row = 0 \<and> cumulativeFees row = 0 \<and>
     treasuryRevenue24h row = 0 \<and> supplyRevenue row = 0"

text \<open>The fee record a row is built from: the one found under the lowercased name, else \<open>{}\<close>.\<close>

definition fees_info :: "(string \<Rightarrow> string) \<Rightarrow> (string \<rightharpoonup> raw_fees) \<Rightarrow> string \<Rightarrow> raw_fees" where
  "fees_info toLowerCase feesMap n = (case feesMap (toLowerCase n) of None \<Rightarrow> empty_fees | Some f \<Rightarrow> f)"

text \<open>The lowercased names under which the fee records are entered in the lookup table.\<close>

definition fee_names :: "(string \<Rightarrow> string) \<Rightarrow> raw_fees list \<Rightarrow> string option list" where
  "fee_names toLowerCase fs = map (\<lambda>f. map_option toLowerCase (rf_name f)) fs"

text \<open>
  Sample inputs for the concrete evaluations: a row by name, TVL and 24h fees and revenue;
  a platform by name and fee; a raw protocol by name, category and TVL; a raw fee record
  by name and 24h fees and revenue.
\<close>

definition sample_row :: "string \<Rightarrow> number \<Rightarrow> number \<Rightarrow> Protocol" where
  "sample_row n t f =
     \<lparr>name = n, symbol = [], slug = None, tvl = t, tvlPrevDay = 0, tvlPrevMonth = 0, mcap = 0,
      fees = \<lparr>fees_24h = f, fees_7d = 0, fees_30d = 0, fees_monthlyAvg1y = 0\<rparr>,
      revenue = \<lparr>revenue_24h = f, revenue_7d = 0, revenue_30d = 0, revenue_1y = 0\<rparr>,
      userFees24h = 0, cumulativeFees = 0,
      holdersRevenue = \<lparr>holdersRevenue_24h = 0, holdersRevenue_30d = 0\<rparr>,
      treasuryRevenue24h = 0, supplyRevenue = 0,
      volume = \<lparr>volume_24h = 0, volume_change7d = 0, volume_cumulative = 0\<rparr>,
      logo = [], category = Some ''Liquid Staking''\<rparr>"

definition sample_platform :: "string \<Rightarrow> number \<Rightarrow> Platform" where
  "sample_platform n f = \<lparr>platform_name = n, fee = f, minStake = 0, apy = 0\<rparr>"

definition sample_raw_protocol :: "string \<Rightarrow> string \<Rightarrow> number option \<Rightarrow> raw_protocol" where
  "sample_raw_protocol n c t =
     \<lparr>rp_name = Some n, rp_symbol = None, rp_slug = None, rp_tvl = t, rp_tvlPrevDay = None,
      rp_tvlPrevMonth = None, rp_mcap = None, rp_logo = None, rp_category = Some c\<rparr>"

definition sample_raw_fees :: "string \<Rightarrow> number \<Rightarrow> raw_fees" where
  "sample_raw_fees n f =
     empty_fees\<lparr>rf_name := Some n, rf_total24h := Some f, rf_revenue24h := Some f\<rparr>"

section \<open>The engine's sort on a consistent comparator\<close>

lemma insert_by_insort:
  assumes "\<And>x y. cmp x y = Inr (c x y)" and "\<And>x y. c x y \<le> 0 \<longleftrightarrow> f x \<le> f y"
  shows "insert_by cmp x ys = Inr (insort_key f x ys)"
  by (induction ys) (simp_all add: assms)

lemma array_sort_sort_key:
  assumes "\<And>x y. cmp x y = Inr (c x y)" and "\<And>x y. c x y \<le> 0 \<longleftrightarrow> f x \<le> f y"
  shows "array_sort cmp xs = Inr (sort_key f xs)"
proof (induction xs)
  case Nil
  show ?case by simp
next
  case (Cons x xs)
  have "sort_key f (x # xs) = insort_key f x (sort_key f xs)"
    by (simp add: sort_key_def)
  with Cons show ?case
    by (simp add: insert_by_insort [OF assms])
qed

section \<open>What the sort callback reads\<close>

lemma prop_get_row: "prop_get (row_object p) k = Inr (row_prop p k)"
  by (simp add: prop_get_def row_prop_def row_object_def)

lemma row_prop_object:
  "typeof (row_prop p k) = ''object'' \<Longrightarrow> k \<in> {''fees'', ''revenue'', ''holdersRevenue'', ''volume''}"
  by (auto simp: row_prop_def row_object_def typeof_def opt_str_def split: if_splits option.splits)

text \<open>
  The walk along the split key only starts when \<open>row[k]\<close> is an object, which needs a key
  without a dot; it then ends where it started. So the callback always compares
  \<open>a[k]\<close> with \<open>b[k]\<close>.
\<close>

lemma sort_values_row: "sort_values k a b = Inr (row_prop a k, row_prop b k)"
proof (cases "typeof (row_prop a k) = ''object''")
  case True
  then have "k \<in> {''fees'', ''revenue'', ''holdersRevenue'', ''volume''}"
    by (rule row_prop_object)
  then have "split_dot k = [k]"
    by auto
  with True show ?thesis
    by (simp add: sort_values_def prop_get_row)
next
  case False
  then show ?thesis
    by (simp add: sort_values_def prop_get_row)
qed

lemma str_lt_irrefl: "\<not> str_lt s s"
  by (induction s) simp_all

lemma js_lt_same: "js_lt v v = Inr False"
  by (cases v) (simp_all add: js_lt_def to_primitive_def str_lt_irrefl)

lemma row_object_keys: "\<exists>fs. row_object p = Obj fs \<and> map fst fs = row_keys"
  by (simp add: row_object_def row_keys_def)

lemma row_prop_absent: "k \<notin> set row_keys \<Longrightarrow> row_prop p k = Undefined"
proof -
  assume k: "k \<notin> set row_keys"
  obtain fs where fs: "row_object p = Obj fs" "map fst fs = row_keys"
    using row_object_keys by blast
  have "map_of fs k = None"
    using k fs(2) by (metis map_of_eq_None_iff set_map)
  then show ?thesis
    by (simp add: row_prop_def fs(1))
qed

lemma row_prop_scalars:
  "row_prop p ''name'' = Str (name p)"
  "row_prop p ''symbol'' = Str (symbol p)"
  "row_prop p ''slug'' = opt_str (slug p)"
  "row_prop p ''tvl'' = Num (tvl p)"
  "row_prop p ''tvlPrevDay'' = Num (tvlPrevDay p)"
  "row_prop p ''tvlPrevMonth'' = Num (tvlPrevMonth p)"
  "row_prop p ''mcap'' = Num (mcap p)"
  "row_prop p ''userFees24h'' = Num (userFees24h p)"
  "row_prop p ''cumulativeFees'' = Num (cumulativeFees p)"
  "row_prop p ''treasuryRevenue24h'' = Num (treasuryRevenue24h p)"
  "row_prop p ''supplyRevenue'' = Num (supplyRevenue p)"
  "row_prop p ''logo'' = Str (logo p)"
  "row_prop p ''category'' = opt_str (category p)"
  by (simp_all add: row_prop_def row_object_def)

lemma row_prop_groups:
  "\<exists>fs. row_prop p ''fees'' = Obj fs"
  "\<exists>fs. row_prop p ''revenue'' = Obj fs"
  "\<exists>fs. row_prop p ''holdersRevenue'' = Obj fs"
  "\<exists>fs. row_prop p ''volume'' = Obj fs"
  by (simp_all add: row_prop_def row_object_def)

lemma js_lt_objects: "js_lt (Obj fs) (Obj gs) = Inr False"
  by (simp add: js_lt_def to_primitive_def)

lemma js_lt_opt_str: "js_lt (opt_str x) (opt_str y) \<noteq> Inl e"
  by (cases x; cases y) (simp_all add: js_lt_def to_primitive_def opt_str_def)

lemma js_lt_nums: "js_lt (Num x) (Num y) = Inr (x < y)"
  by (simp add: js_lt_def to_primitive_def)

lemma js_lt_strs: "js_lt (Str x) (Str y) = Inr (str_lt x y)"
  by (simp add: js_lt_def to_primitive_def)

lemma row_keys_kinds:
  "k \<in> set row_keys \<Longrightarrow>
     k \<in> {''fees'', ''revenue'', ''holdersRevenue'', ''volume''} \<or>
     k \<in> {''slug'', ''category''} \<or>
     k \<in> {''name'', ''symbol'', ''logo''} \<or>
     k \<in> {''tvl'', ''tvlPrevDay'', ''tvlPrevMonth'', ''mcap'', ''userFees24h'',
          ''cumulativeFees'', ''treasuryRevenue24h'', ''supplyRevenue''}"
  unfolding row_keys_def by auto

lemma js_lt_numbers_rows:
  "k \<in> {''tvl'', ''tvlPrevDay'', ''tvlPrevMonth'', ''mcap'', ''userFees24h'',
        ''cumulativeFees'', ''treasuryRevenue24h'', ''supplyRevenue''} \<Longrightarrow>
   js_lt (row_prop a k) (row_prop b k) \<noteq> Inl e"
  by (auto simp: row_prop_scalars js_lt_nums)

lemma js_lt_strings_rows:
  "k \<in> {''name'', ''symbol'', ''logo''} \<Longrightarrow> js_lt (row_prop a k) (row_prop b k) \<noteq> Inl e"
  by (auto simp: row_prop_scalars js_lt_strs)

lemma js_lt_optional_rows:
  "k \<in> {''slug'', ''category''} \<Longrightarrow> js_lt (row_prop a k) (row_prop b k) \<noteq> Inl e"
  using js_lt_opt_str by (auto simp: row_prop_scalars)

lemma js_lt_groups_rows:
  assumes "k \<in> {''fees'', ''revenue'', ''holdersRevenue'', ''volume''}"
  shows "js_lt (row_prop a k) (row_prop b k) \<noteq> Inl e"
proof -
  obtain fs gs where "row_prop a k = Obj fs" "row_prop b k = Obj gs"
    using assms row_prop_groups [of a] row_prop_groups [of b] by auto
  then show ?thesis
    by (simp add: js_lt_objects)
qed

lemma js_lt_rows: "\<exists>r. js_lt (row_prop a k) (row_prop b k) = Inr r"
proof -
  have "js_lt (row_prop a k) (row_prop b k) \<noteq> Inl e" for e
  proof (cases "k \<in> set row_keys")
    case False
    then show ?thesis
      by (simp add: row_prop_absent js_lt_same)
  next
    case True
    from row_keys_kinds [OF this] show ?thesis
      by (elim disjE)
        (erule js_lt_groups_rows js_lt_optional_rows js_lt_strings_rows js_lt_numbers_rows)+
  qed
  then show ?thesis
    by (cases "js_lt (row_prop a k) (row_prop b k)") blast+
qed

lemma compare_rows_pm1: "compare_rows cfg a b = Inr 1 \<or> compare_rows cfg a b = Inr (- 1)"
proof -
  obtain r where r: "js_lt (row_prop a (key cfg)) (row_prop b (key cfg)) = Inr r"
    using js_lt_rows by blast
  obtain r' where r': "js_lt (row_prop b (key cfg)) (row_prop a (key cfg)) = Inr r'"
    using js_lt_rows by blast
  show ?thesis
    by (simp add: compare_rows_def sort_values_row js_gt_def r r')
qed

lemma compare_rows_equal:
  "row_prop a k = row_prop b k \<Longrightarrow> compare_rows \<lparr>key = k, direction = d\<rparr> a b = Inr (- 1)"
  by (simp add: compare_rows_def sort_values_row js_gt_def js_lt_same)

section \<open>Rounding to the nearest double\<close>

lemma bit_length_bounds: "0 < n \<Longrightarrow> 2 ^ (bit_length n - 1) \<le> n \<and> n < 2 ^ bit_length n"
proof (induction n rule: bit_length.induct)
  case (1 n)
  show ?case
  proof (cases "n div 2 = 0")
    case True
    with "1.prems" have "n = Suc 0" by (simp add: div_eq_0_iff)
    moreover have "bit_length (Suc 0) = Suc 0"
      by (simp add: bit_length.simps [of "Suc 0"] bit_length.simps [of 0])
    ultimately show ?thesis
      by simp
  next
    case False
    then have pos: "0 < n div 2" by simp
    with "1.IH" "1.prems" have ih: "2 ^ (bit_length (n div 2) - 1) \<le> n div 2" "n div 2 < 2 ^ bit_length (n div 2)"
      by simp_all
    have bl: "bit_length n = Suc (bit_length (n div 2))"
      using "1.prems" by (subst bit_length.simps) simp
    have "0 < bit_length (n div 2)"
      using pos by (subst bit_length.simps) simp
    then have a: "(2::nat) ^ (bit_length n - 1) = 2 * 2 ^ (bit_length (n div 2) - 1)"
      unfolding bl by (cases "bit_length (n div 2)") simp_all
    have "(2::nat) ^ (bit_length n - 1) \<le> 2 * (n div 2)"
      unfolding a using ih(1) by simp
    then have lo: "2 ^ (bit_length n - 1) \<le> n"
      by presburger
    have "(2::nat) ^ bit_length n = 2 * 2 ^ bit_length (n div 2)"
      unfolding bl by simp
    moreover have "n div 2 + 1 \<le> 2 ^ bit_length (n div 2)"
      using ih(2) by simp
    ultimately have "2 * (n div 2 + 1) \<le> 2 ^ bit_length n"
      by simp
    then have hi: "n < 2 ^ bit_length n"
      by presburger
    from lo hi show ?thesis ..
  qed
qed

lemma pow2_pos: "0 < pow2 k"
  by (simp add: pow2_def)

lemma pow2_Suc: "pow2 (k + 1) = 2 * pow2 k"
proof (cases "0 \<le> k")
  case True
  then show ?thesis by (simp add: pow2_def nat_add_distrib)
next
  case False
  then have "nat (- k) = Suc (nat (- (k + 1)))" by simp
  with False show ?thesis by (simp add: pow2_def)
qed

lemma pow2_nat: "pow2 (int n) = 2 ^ n"
  by (simp add: pow2_def)

lemma pow2_mono_step: "pow2 k \<le> pow2 (k + int n)"
proof (induction n)
  case 0
  show ?case by simp
next
  case (Suc n)
  have "pow2 (k + int (Suc n)) = 2 * pow2 (k + int n)"
    using pow2_Suc [of "k + int n"] by (simp add: ac_simps)
  with Suc pow2_pos [of "k + int n"] show ?case by simp
qed

lemma pow2_mono: "j \<le> k \<Longrightarrow> pow2 j \<le> pow2 k"
  using pow2_mono_step [of j "nat (k - j)"] by simp

lemma pow2_strict: "j < k \<Longrightarrow> pow2 j < pow2 k"
proof -
  assume "j < k"
  then have "pow2 (j + 1) \<le> pow2 k" by (intro pow2_mono) simp
  moreover have "pow2 j < pow2 (j + 1)" using pow2_pos [of j] by (simp add: pow2_Suc)
  ultimately show ?thesis by simp
qed


lemma pow2_neg: "pow2 (- int n) = 1 / 2 ^ n"
  by (cases "n = 0") (simp_all add: pow2_def)

lemma expo_bounds:
  assumes "q \<noteq> 0"
  shows "pow2 (expo q) \<le> \<bar>q\<bar> \<and> \<bar>q\<bar> < pow2 (expo q + 1)"
proof (cases "1 \<le> \<bar>q\<bar>")
  case True
  define n where "n = nat \<lfloor>\<bar>q\<bar>\<rfloor>"
  have fl1: "1 \<le> \<lfloor>\<bar>q\<bar>\<rfloor>" using True by (simp add: le_floor_iff)
  then have n: "0 < n" and nf: "int n = \<lfloor>\<bar>q\<bar>\<rfloor>" by (simp_all add: n_def)
  from bit_length_bounds [OF n]
  have lo: "2 ^ (bit_length n - 1) \<le> n" and hi: "n < 2 ^ bit_length n" by simp_all
  have blp: "0 < bit_length n" using n by (subst bit_length.simps) simp
  have e: "expo q = int (bit_length n) - 1"
    using True by (simp add: expo_def n_def)
  have e': "expo q = int (bit_length n - 1)" using blp e by simp
  have "(of_int (int n) :: rat) \<le> \<bar>q\<bar>"
    unfolding nf by (rule of_int_floor_le)
  then have "(of_nat n :: rat) \<le> \<bar>q\<bar>" by simp
  moreover have "(of_nat (2 ^ (bit_length n - 1)) :: rat) \<le> of_nat n"
    using lo by (simp only: of_nat_le_iff)
  then have "(2 :: rat) ^ (bit_length n - 1) \<le> of_nat n" by simp
  ultimately have "(2 :: rat) ^ (bit_length n - 1) \<le> \<bar>q\<bar>"
    by (rule order_trans [rotated])
  then have a: "pow2 (expo q) \<le> \<bar>q\<bar>"
    unfolding e' pow2_nat .
  have "int n < int (2 ^ bit_length n)"
    using hi by (simp only: of_nat_less_iff)
  then have "\<lfloor>\<bar>q\<bar>\<rfloor> < 2 ^ bit_length n"
    using nf by simp
  then have "\<bar>q\<bar> < of_int (2 ^ bit_length n)"
    by (simp only: floor_less_iff)
  then have b: "\<bar>q\<bar> < pow2 (expo q + 1)"
    unfolding e by (simp add: pow2_nat)
  from a b show ?thesis ..
next
  case False
  define y where "y = 1 / \<bar>q\<bar>"
  define m where "m = \<lceil>y\<rceil>"
  define k where "k = bit_length (nat (m - 1))"
  have qpos: "0 < \<bar>q\<bar>" using assms by simp
  have y1: "1 < y" using False qpos by (simp add: y_def)
  then have m2: "2 \<le> m" unfolding m_def by (simp add: le_ceiling_iff)
  then have mpos: "0 < nat (m - 1)" by simp
  from bit_length_bounds [OF mpos]
  have lo: "2 ^ (k - 1) \<le> nat (m - 1)" and hi: "nat (m - 1) < 2 ^ k" by (simp_all add: k_def)
  have kpos: "0 < k" unfolding k_def using mpos by (subst bit_length.simps) simp
  have e: "expo q = - int k"
    using False by (simp add: expo_def k_def m_def y_def)
  have im: "int (nat (m - 1)) = m - 1" using m2 by simp
  have "int (nat (m - 1)) < int (2 ^ k)"
    using hi by (simp only: of_nat_less_iff)
  then have "m - 1 < 2 ^ k" unfolding im by simp
  then have "m \<le> 2 ^ k" by simp
  then have "y \<le> of_int (2 ^ k)"
    unfolding m_def by (simp add: ceiling_le_iff)
  then have yk: "y \<le> 2 ^ k" by simp
  have "int (2 ^ (k - 1)) \<le> int (nat (m - 1))"
    using lo by (simp only: of_nat_le_iff)
  then have "(2::int) ^ (k - 1) \<le> m - 1" unfolding im by simp
  then have "(of_int (2 ^ (k - 1)) :: rat) \<le> of_int (m - 1)"
    by (simp only: of_int_le_iff)
  moreover have "of_int (m - 1) < y"
    unfolding m_def by linarith
  ultimately have "of_int (2 ^ (k - 1)) < y"
    by (rule order_le_less_trans)
  then have ky: "2 ^ (k - 1) < y" by simp
  have q: "\<bar>q\<bar> = 1 / y" by (simp add: y_def)
  have ypos: "0 < y" using y1 by simp
  have a: "pow2 (expo q) \<le> \<bar>q\<bar>"
  proof -
    have "pow2 (- int k) = 1 / 2 ^ k"
      by (rule pow2_neg)
    also have "\<dots> \<le> 1 / y"
      using yk ypos by (simp add: frac_le)
    finally show ?thesis unfolding e q .
  qed
  have b: "\<bar>q\<bar> < pow2 (expo q + 1)"
  proof -
    have "- int k + 1 = - int (k - 1)" using kpos by simp
    then have "pow2 (expo q + 1) = 1 / 2 ^ (k - 1)"
      unfolding e by (simp only: pow2_neg)
    moreover have "1 / y < 1 / 2 ^ (k - 1)"
      using ky by (simp add: frac_less2)
    ultimately show ?thesis unfolding q by simp
  qed
  from a b show ?thesis ..
qed

lemma expo_unique:
  assumes "pow2 e \<le> \<bar>q\<bar>" and "\<bar>q\<bar> < pow2 (e + 1)"
  shows "expo q = e"
proof -
  have "q \<noteq> 0" using assms(1) pow2_pos [of e] by auto
  from expo_bounds [OF this]
  have lo: "pow2 (expo q) \<le> \<bar>q\<bar>" and hi: "\<bar>q\<bar> < pow2 (expo q + 1)" by simp_all
  have "\<not> expo q < e"
  proof
    assume "expo q < e"
    then have "pow2 (expo q + 1) \<le> pow2 e" by (intro pow2_mono) simp
    with hi assms(1) show False by simp
  qed
  moreover have "\<not> e < expo q"
  proof
    assume "e < expo q"
    then have "pow2 (e + 1) \<le> pow2 (expo q)" by (intro pow2_mono) simp
    with lo assms(2) show False by simp
  qed
  ultimately show ?thesis by simp
qed


lemma fl_eval:
  assumes "pow2 e \<le> \<bar>q\<bar>" and "\<bar>q\<bar> < pow2 (e + 1)" and "- 1022 \<le> e"
  shows "fl q = sgn q * (of_int (round_ties_even (\<bar>q\<bar> / pow2 (e - 52))) * pow2 (e - 52))"
proof -
  have "expo q = e" using assms(1,2) by (rule expo_unique)
  moreover have "q \<noteq> 0" using assms(1) pow2_pos [of e] by auto
  ultimately show ?thesis using assms(3) by (simp add: fl_def Let_def max_def)
qed

lemma round_ties_even_bounds: "0 \<le> y \<Longrightarrow> 0 \<le> round_ties_even y \<and> of_int (round_ties_even y) \<le> y + 1"
proof -
  assume y: "0 \<le> y"
  define n where "n = \<lfloor>y\<rfloor>"
  have b: "0 \<le> n" using y by (simp add: n_def)
  have a: "of_int n \<le> y" by (simp add: n_def)
  show ?thesis
    unfolding round_ties_even_def Let_def n_def [symmetric] using a b by auto
qed

lemma fl_bound: "\<bar>fl q\<bar> \<le> 2 * \<bar>q\<bar> + 1"
proof (cases "q = 0")
  case True
  then show ?thesis by (simp add: fl_def)
next
  case False
  define u where "u = pow2 (max (expo q) (- 1022) - 52)"
  define m where "m = round_ties_even (\<bar>q\<bar> / u)"
  have upos: "0 < u" unfolding u_def by (rule pow2_pos)
  have u: "u \<le> \<bar>q\<bar> + 1"
  proof (cases "- 1022 \<le> expo q")
    case True
    then have "u = pow2 (expo q - 52)" by (simp add: u_def max_def)
    also have "\<dots> \<le> pow2 (expo q)" by (rule pow2_mono) simp
    also have "\<dots> \<le> \<bar>q\<bar>" using expo_bounds [OF False] by simp
    finally show ?thesis by simp
  next
    case False
    then have "u = pow2 (- 1074)" by (simp add: u_def max_def)
    also have "\<dots> \<le> pow2 0" by (rule pow2_mono) simp
    also have "\<dots> = 1" by (simp add: pow2_def)
    finally show ?thesis by simp
  qed
  have y: "0 \<le> \<bar>q\<bar> / u" using upos by simp
  from round_ties_even_bounds [OF y]
  have m0: "0 \<le> m" and m1: "of_int m \<le> \<bar>q\<bar> / u + 1" by (simp_all add: m_def)
  have "of_int m * u \<le> (\<bar>q\<bar> / u + 1) * u"
    using m1 upos by (simp add: mult_right_mono)
  also have "\<dots> = \<bar>q\<bar> + u" using upos by (simp add: field_simps)
  finally have mu: "of_int m * u \<le> \<bar>q\<bar> + u" .
  have "fl q = sgn q * (of_int m * u)"
    using False by (simp add: fl_def Let_def u_def m_def)
  then have "\<bar>fl q\<bar> = of_int m * u"
    using False m0 upos by (simp add: abs_mult abs_sgn_eq)
  with mu u show ?thesis by simp
qed

lemma fl_sign: "0 \<le> q \<Longrightarrow> 0 \<le> fl q"
proof -
  assume q: "0 \<le> q"
  show ?thesis
  proof (cases "q = 0")
    case True
    then show ?thesis by (simp add: fl_def)
  next
    case False
    define u where "u = pow2 (max (expo q) (- 1022) - 52)"
    have upos: "0 < u" unfolding u_def by (rule pow2_pos)
    have y: "0 \<le> \<bar>q\<bar> / u" using upos by simp
    from round_ties_even_bounds [OF y] have "0 \<le> round_ties_even (\<bar>q\<bar> / u)" by simp
    then show ?thesis
      using False q upos by (simp add: fl_def Let_def u_def [symmetric] sgn_if)
  qed
qed

section \<open>The decimal rendering\<close>

lemma digit_char_0: "digit_char 0 = CHR ''0''"
  by code_simp

lemma digits_of_small: "n < 10 \<Longrightarrow> digits_of n = [digit_char n]"
  by (simp add: digits_of.simps)

lemma digits_of_step: "10 \<le> n \<Longrightarrow> digits_of n = digits_of (n div 10) @ [digit_char (n mod 10)]"
  by (subst digits_of.simps) simp

lemma length_digits_of_pos: "0 < length (digits_of n)"
  by (subst digits_of.simps) simp

lemma digits_of_hundred:
  "100 \<le> n \<Longrightarrow> digits_of n = digits_of (n div 100) @ [digit_char (n div 10 mod 10), digit_char (n mod 10)]"
proof -
  assume n: "100 \<le> n"
  then have "10 \<le> n div 10" by simp
  then have "digits_of (n div 10) = digits_of (n div 10 div 10) @ [digit_char (n div 10 mod 10)]"
    by (rule digits_of_step)
  moreover have "n div 10 div 10 = n div 100"
    by (simp add: div_mult2_eq)
  ultimately show ?thesis
    using n by (simp add: digits_of_step)
qed

lemma fixed_digits_two:
  "fixed_digits n 2 = digits_of (n div 100) @ ''.'' @ [digit_char (n div 10 mod 10), digit_char (n mod 10)]"
proof -
  have m: "(if n = 0 then ''0'' else digits_of n) = digits_of n"
    by (simp add: digits_of_small digit_char_0)
  consider "n < 10" | "10 \<le> n" "n < 100" | "100 \<le> n" by linarith
  then show ?thesis
  proof cases
    case 1
    then show ?thesis
      by (simp add: fixed_digits_def m digits_of_small Let_def digit_char_0 numeral_2_eq_2)
  next
    case 2
    then have "n div 10 < 10" by simp
    with 2 show ?thesis
      by (simp add: fixed_digits_def m digits_of_step digits_of_small Let_def digit_char_0)
  next
    case 3
    have "2 < length (digits_of n)"
      using length_digits_of_pos [of "n div 100"] by (simp add: digits_of_hundred [OF 3])
    then show ?thesis
      by (simp add: fixed_digits_def m Let_def digits_of_hundred [OF 3])
  qed
qed

lemma toFixed_two_decimals: "\<bar>x\<bar> < 10 ^ 21 \<Longrightarrow> toFixed ts x 2 = two_decimals x"
  by (simp add: toFixed_def two_decimals_def fixed_digits_two Let_def abs_if)

lemma toFixed_negative: "x < 0 \<Longrightarrow> \<exists>rest. toFixed ts x f = CHR ''-'' # rest"
  by (simp add: toFixed_def Let_def)

lemma digit_char_values:
  "digit_char 0 = CHR ''0''" "digit_char 1 = CHR ''1''" "digit_char 2 = CHR ''2''"
  "digit_char 3 = CHR ''3''" "digit_char 4 = CHR ''4''" "digit_char 5 = CHR ''5''"
  "digit_char 6 = CHR ''6''" "digit_char 7 = CHR ''7''" "digit_char 8 = CHR ''8''"
  "digit_char 9 = CHR ''9''" "digit_char (Suc 0) = CHR ''1''"
  by code_simp+

lemma digits_of_numeral:
  "digits_of (numeral k) =
     (if numeral k < (10 :: nat) then [digit_char (numeral k)]
      else digits_of (numeral k div 10) @ [digit_char (numeral k mod 10)])"
  by (rule digits_of.simps)

lemma digits_of_0: "digits_of 0 = ''0''"
  by (simp add: digits_of.simps digit_char_values)

lemma digits_of_1: "digits_of 1 = ''1''" "digits_of (Suc 0) = ''1''"
  by (simp_all add: digits_of_small digit_char_values)

lemma floor_numeral_fraction: "\<lfloor>numeral a / numeral b :: rat\<rfloor> = numeral a div numeral b"
  using floor_divide_of_int_eq [of "numeral a" "numeral b", where ?'a = rat] by simp

lemmas decimal_eval =
  two_decimals_def Let_def floor_numeral_fraction digits_of_numeral digits_of_0 digits_of_1
  digit_char_values

lemma nearest_hundredth:
  "\<bar>of_nat (nat \<lfloor>\<bar>x\<bar> * 100 + 1 / 2\<rfloor>) / 100 - \<bar>x :: rat\<bar>\<bar> \<le> 1 / 200"
proof -
  define n where "n = \<lfloor>\<bar>x\<bar> * 100 + 1 / 2\<rfloor>"
  have pos: "0 \<le> n" by (simp add: n_def)
  have "of_int n \<le> \<bar>x\<bar> * 100 + 1 / 2" and "\<bar>x\<bar> * 100 + 1 / 2 < of_int n + 1"
    unfolding n_def by linarith+
  then have "\<bar>of_int n / 100 - \<bar>x\<bar>\<bar> \<le> 1 / 200"
    by linarith
  moreover have "(of_nat (nat n) :: rat) = of_int n"
    using pos by simp
  ultimately show ?thesis
    unfolding n_def by simp
qed

section \<open>Rounded quotients and their rendering\<close>

lemmas fl_simps = pow2_def round_ties_even_def Let_def floor_numeral_fraction

lemma fl_minus: "fl (- q) = - fl q"
  by (simp add: fl_def expo_def Let_def)

lemma fl_nonpos: "q \<le> 0 \<Longrightarrow> fl q \<le> 0"
  using fl_sign [of "- q"] by (simp add: fl_minus)

lemma fl_upper: "0 \<le> q \<Longrightarrow> fl q \<le> 2 * q + 1"
  using fl_bound [of q] by simp

lemma toFixed_exponent: "10 ^ 21 \<le> x \<Longrightarrow> toFixed ts x f = ts x"
  by (simp add: toFixed_def Let_def)

lemma toFixed_exponent_negative: "x \<le> - (10 ^ 21) \<Longrightarrow> toFixed ts x f = ''-'' @ ts (- x)"
  by (simp add: toFixed_def Let_def)

lemma quotient_two_decimals:
  assumes "0 \<le> q" and "q < 10 ^ 20"
  shows "toFixed ts (fl q) 2 = two_decimals (fl q)"
proof -
  have "0 \<le> fl q" using assms(1) by (rule fl_sign)
  moreover have "fl q \<le> 2 * q + 1" using assms(1) by (rule fl_upper)
  ultimately have "\<bar>fl q\<bar> < 10 ^ 21" using assms(2) by simp
  then show ?thesis by (rule toFixed_two_decimals)
qed

lemma billions_large:
  assumes "10 ^ 21 \<le> fl (v / 1000000000)"
  shows "1000000000 \<le> v"
proof (rule ccontr)
  assume "\<not> 1000000000 \<le> v"
  then have v: "v < 1000000000" by simp
  show False
  proof (cases "0 \<le> v")
    case True
    then have "fl (v / 1000000000) \<le> 2 * (v / 1000000000) + 1"
      by (intro fl_upper) simp
    also have "\<dots> < 3" using v by simp
    finally show False using assms by simp
  next
    case False
    then have "fl (v / 1000000000) \<le> 0"
      by (intro fl_nonpos) (simp add: divide_nonpos_pos)
    with assms show False by simp
  qed
qed

lemma fl_1: "fl 1 = 1"
  using fl_eval [of 0 1] by (simp add: fl_simps)

lemma fl_sample_quotients:
  "fl (999999999 / 1000000) = 8796093013411907 / 8796093022208"
  "fl (1005 / 1000) = 1131529406376837 / 1125899906842624"
  "fl (1000000000000000019884624838656 / 1000000000) = 10 ^ 21"
  "fl 1000000000000000019884624838656 = 1000000000000000019884624838656"
  using fl_eval [of 9 "999999999 / 1000000"] fl_eval [of 0 "1005 / 1000"]
    fl_eval [of 69 "1000000000000000019884624838656 / 1000000000"]
    fl_eval [of 99 1000000000000000019884624838656]
  by (simp_all add: fl_simps)

section \<open>Properties of the card's formatting helpers\<close>

text \<open>
  Claim C6, as it holds of the code. \<open>formatCurrency\<close> is a total function of its
  argument: it returns \<open>$0\<close> for null or undefined, and the tiers meet exactly at
  \<open>1e9\<close>, \<open>1e6\<close> and \<open>1e3\<close>.
  In a tier the number printed is the quotient as the doubles compute it, \<open>fl (v / 1e9)\<close>
  and likewise for \<open>1e6\<close> and \<open>1e3\<close>, to two decimal places. This is so in the \<open>M\<close> and
  \<open>K\<close> tiers whole, and in the \<open>B\<close> tier as long as the computed quotient is below
  \<open>10^21\<close>, which holds for every \<open>v\<close> below \<open>10^29\<close>; from a computed quotient of
  \<open>10^21\<close> on, the engine prints it in exponent notation, not to two decimal places.
  Below \<open>1e3\<close> the plain two-decimal dollar string is printed for every \<open>v\<close> above
  \<open>-10^21\<close>, and exponent notation for the others. The currency branch of the page's
  \<open>formatNumber\<close> is the same function on numbers.
\<close>

theorem formatCurrency_tiers:
  "formatCurrency ts None = ''$0'' \<and>
   (1000000000 \<le> v \<and> fl (v / 1000000000) < 10 ^ 21 \<longrightarrow>
      formatCurrency ts (Some v) = ''$'' @ two_decimals (fl (v / 1000000000)) @ ''B'') \<and>
   (1000000000 \<le> v \<and> v < 10 ^ 29 \<longrightarrow> fl (v / 1000000000) < 10 ^ 21) \<and>
   (10 ^ 21 \<le> fl (v / 1000000000) \<longrightarrow>
      formatCurrency ts (Some v) = ''$'' @ ts (fl (v / 1000000000)) @ ''B'') \<and>
   (1000000 \<le> v \<and> v < 1000000000 \<longrightarrow>
      formatCurrency ts (Some v) = ''$'' @ two_decimals (fl (v / 1000000)) @ ''M'') \<and>
   (1000 \<le> v \<and> v < 1000000 \<longrightarrow>
      formatCurrency ts (Some v) = ''$'' @ two_decimals (fl (v / 1000)) @ ''K'') \<and>
   (- (10 ^ 21) < v \<and> v < 1000 \<longrightarrow> formatCurrency ts (Some v) = ''$'' @ two_decimals v) \<and>
   (v \<le> - (10 ^ 21) \<longrightarrow> formatCurrency ts (Some v) = ''$-'' @ ts (- v)) \<and>
   formatNumber ts v Currency = formatCurrency ts (Some v)"
proof -
  have b: "formatCurrency ts (Some v) = ''$'' @ two_decimals (fl (v / 1000000000)) @ ''B''"
    if "1000000000 \<le> v" and "fl (v / 1000000000) < 10 ^ 21"
  proof -
    have "0 \<le> fl (v / 1000000000)" using that(1) by (intro fl_sign) simp
    with that(2) have "\<bar>fl (v / 1000000000)\<bar> < 10 ^ 21" by simp
    then have "toFixed ts (fl (v / 1000000000)) 2 = two_decimals (fl (v / 1000000000))"
      by (rule toFixed_two_decimals)
    with that(1) show ?thesis by (simp add: formatCurrency_def)
  qed
  have b': "fl (v / 1000000000) < 10 ^ 21" if "1000000000 \<le> v" and "v < 10 ^ 29"
  proof -
    have "fl (v / 1000000000) \<le> 2 * (v / 1000000000) + 1"
      using that(1) by (intro fl_upper) simp
    also have "\<dots> < 10 ^ 21" using that(2) by simp
    finally show ?thesis .
  qed
  have e: "formatCurrency ts (Some v) = ''$'' @ ts (fl (v / 1000000000)) @ ''B''"
    if "10 ^ 21 \<le> fl (v / 1000000000)"
    using billions_large [OF that] toFixed_exponent [OF that]
    by (simp add: formatCurrency_def)
  have m: "formatCurrency ts (Some v) = ''$'' @ two_decimals (fl (v / 1000000)) @ ''M''"
    if "1000000 \<le> v" and "v < 1000000000"
  proof -
    have "toFixed ts (fl (v / 1000000)) 2 = two_decimals (fl (v / 1000000))"
      using that by (intro quotient_two_decimals) simp_all
    with that show ?thesis by (simp add: formatCurrency_def)
  qed
  have k: "formatCurrency ts (Some v) = ''$'' @ two_decimals (fl (v / 1000)) @ ''K''"
    if "1000 \<le> v" and "v < 1000000"
  proof -
    have "toFixed ts (fl (v / 1000)) 2 = two_decimals (fl (v / 1000))"
      using that by (intro quotient_two_decimals) simp_all
    with that show ?thesis by (simp add: formatCurrency_def)
  qed
  have u: "formatCurrency ts (Some v) = ''$'' @ two_decimals v"
    if "- (10 ^ 21) < v" and "v < 1000"
  proof -
    have "\<bar>v\<bar> < 10 ^ 21" using that by simp
    then have "toFixed ts v 2 = two_decimals v" by (rule toFixed_two_decimals)
    with that(2) show ?thesis by (simp add: formatCurrency_def)
  qed
  have n: "formatCurrency ts (Some v) = ''$-'' @ ts (- v)" if "v \<le> - (10 ^ 21)"
    using that toFixed_exponent_negative [OF that] by (simp add: formatCurrency_def)
  have p: "formatNumber ts v Currency = formatCurrency ts (Some v)"
    by (simp add: formatCurrency_def formatNumber_def)
  have z: "formatCurrency ts None = ''$0''"
    by (simp add: formatCurrency_def)
  show ?thesis
    apply (intro conjI impI)
    subgoal by (rule z)
    subgoal using b by blast
    subgoal using b' by blast
    subgoal using e by blast
    subgoal using m by blast
    subgoal using k by blast
    subgoal using u by blast
    subgoal using n by blast
    subgoal by (rule p)
    done
qed


text \<open>
  The tiers at their boundaries: \<open>1e9\<close> is the first value of the \<open>B\<close> tier and
  \<open>999999999\<close> still belongs to the \<open>M\<close> tier, and likewise at \<open>1e6\<close> and \<open>1e3\<close>. At
  \<open>1005\<close> the computed quotient is the double below \<open>1.005\<close>, printed \<open>1.00\<close>, where the
  exact quotient to two decimal places is \<open>1.01\<close>.
\<close>

theorem formatCurrency_tiers_witness:
  "(1000000000 :: rat) \<le> 1000000000 \<and> fl (1000000000 / 1000000000) < 10 ^ 21 \<and>
   formatCurrency (\<lambda>_. ''1e+21'') (Some 1000000000) = ''$1.00B'' \<and>
   (1000000 :: rat) \<le> 999999999 \<and> (999999999 :: rat) < 1000000000 \<and>
   formatCurrency (\<lambda>_. ''1e+21'') (Some 999999999) = ''$1000.00M'' \<and>
   formatCurrency (\<lambda>_. ''1e+21'') (Some 1000000) = ''$1.00M'' \<and>
   (1000 :: rat) \<le> 1005 \<and> (1005 :: rat) < 1000000 \<and>
   formatCurrency (\<lambda>_. ''1e+21'') (Some 1005) = ''$1.00K'' \<and>
   two_decimals (1005 / 1000) = ''1.01'' \<and>
   formatCurrency (\<lambda>_. ''1e+21'') (Some 1000) = ''$1.00K'' \<and>
   - (10 ^ 21) < (1999 / 2 :: rat) \<and> (1999 / 2 :: rat) < 1000 \<and>
   formatCurrency (\<lambda>_. ''1e+21'') (Some (1999 / 2)) = ''$999.50'' \<and>
   (10 :: rat) ^ 21 \<le> fl (1000000000000000019884624838656 / 1000000000) \<and>
   formatCurrency (\<lambda>_. ''1e+21'') (Some 1000000000000000019884624838656) = ''$1e+21B''"
proof -
  let ?ts = "\<lambda>_ :: rat. ''1e+21''"
  note t = formatCurrency_tiers
  have b: "formatCurrency ?ts (Some 1000000000) = ''$1.00B''"
    using t [of ?ts 1000000000] fl_1 by (simp add: decimal_eval)
  have m1: "formatCurrency ?ts (Some 999999999) = ''$1000.00M''"
    using t [of ?ts 999999999] fl_sample_quotients(1) by (simp add: decimal_eval)
  have m2: "formatCurrency ?ts (Some 1000000) = ''$1.00M''"
    using t [of ?ts 1000000] fl_1 by (simp add: decimal_eval)
  have k1: "formatCurrency ?ts (Some 1005) = ''$1.00K''"
  proof -
    have "(1000 :: rat) \<le> 1005 \<and> (1005 :: rat) < 1000000" by simp
    with t [of ?ts 1005]
    have "formatCurrency ?ts (Some 1005) = ''$'' @ two_decimals (fl (1005 / 1000)) @ ''K''"
      by blast
    moreover have "two_decimals (fl (1005 / 1000)) = ''1.00''"
      unfolding fl_sample_quotients(2) by (simp add: decimal_eval)
    ultimately show ?thesis by simp
  qed
  have k2: "formatCurrency ?ts (Some 1000) = ''$1.00K''"
    using t [of ?ts 1000] fl_1 by (simp add: decimal_eval)
  have u: "formatCurrency ?ts (Some (1999 / 2)) = ''$999.50''"
    using t [of ?ts "1999 / 2"] by (simp add: decimal_eval)
  have h: "formatCurrency ?ts (Some 1000000000000000019884624838656) = ''$1e+21B''"
    using t [of ?ts 1000000000000000019884624838656] fl_sample_quotients(3) by simp
  have d: "two_decimals (1005 / 1000) = ''1.01''"
    by (simp add: decimal_eval)
  show ?thesis
    using b m1 m2 k1 k2 u h d fl_1 fl_sample_quotients(3) by simp
qed

text \<open>
  Stated for every \<open>v\<close> of at least \<open>1e9\<close>, the claim fails in the \<open>B\<close> tier at the
  double \<open>1e30\<close>: the computed quotient is \<open>10^21\<close>, which \<open>toFixed\<close> hands to \<open>Number::toString\<close>, and the string is
  \<open>$1e+21B\<close>, not the quotient to two decimal places.
\<close>

theorem formatCurrency_exponent_notation:
  "fl 1000000000000000019884624838656 = 1000000000000000019884624838656 \<and>
   (1000000000 :: rat) \<le> 1000000000000000019884624838656 \<and>
   (\<forall>ts. formatCurrency ts (Some 1000000000000000019884624838656) = ''$'' @ ts (10 ^ 21) @ ''B'') \<and>
   formatCurrency (\<lambda>_. ''1e+21'') (Some 1000000000000000019884624838656) = ''$1e+21B'' \<and>
   ''$'' @ two_decimals (1000000000000000019884624838656 / 1000000000) @ ''B''
     = ''$1000000000000000019884.62B'' \<and>
   ''$'' @ two_decimals (fl (1000000000000000019884624838656 / 1000000000)) @ ''B''
     = ''$1000000000000000000000.00B'' \<and>
   formatCurrency (\<lambda>_. ''1e+21'') (Some 1000000000000000019884624838656)
     \<noteq> ''$'' @ two_decimals (fl (1000000000000000019884624838656 / 1000000000)) @ ''B''"
proof -
  have x: "toFixed ts (fl (1000000000000000019884624838656 / 1000000000)) 2 = ts (10 ^ 21)" for ts
    using fl_sample_quotients(3) by (simp add: toFixed_def)
  have a: "formatCurrency ts (Some 1000000000000000019884624838656) = ''$'' @ ts (10 ^ 21) @ ''B''"
    for ts
    using x [of ts] by (simp add: formatCurrency_def)
  have b: "two_decimals (1000000000000000019884624838656 / 1000000000)
      = ''1000000000000000019884.62''"
    by (simp add: decimal_eval)
  have c: "two_decimals (fl (1000000000000000019884624838656 / 1000000000))
      = ''1000000000000000000000.00''"
    unfolding fl_sample_quotients(3) by (simp add: decimal_eval)
  have e: "formatCurrency (\<lambda>_. ''1e+21'') (Some 1000000000000000019884624838656) = ''$1e+21B''"
    unfolding a by simp
  have b': "''$'' @ two_decimals (1000000000000000019884624838656 / 1000000000) @ ''B''
      = ''$1000000000000000019884.62B''"
    unfolding b by simp
  have c': "''$'' @ two_decimals (fl (1000000000000000019884624838656 / 1000000000)) @ ''B''
      = ''$1000000000000000000000.00B''"
    unfolding c by simp
  have d: "formatCurrency (\<lambda>_. ''1e+21'') (Some 1000000000000000019884624838656)
      \<noteq> ''$'' @ two_decimals (fl (1000000000000000019884624838656 / 1000000000)) @ ''B''"
    unfolding a c by simp
  show ?thesis
    apply (intro conjI allI)
    subgoal by (rule fl_sample_quotients(4))
    subgoal by simp
    subgoal by (rule a)
    subgoal by (rule e)
    subgoal by (rule b')
    subgoal by (rule c')
    subgoal by (rule d)
    done
qed

text \<open>
  Claim C7, as it holds of the code. \<open>formatPercentage\<close> returns \<open>0%\<close> for null or
  undefined; for a number \<open>v\<close> it returns \<open>v.toFixed(2)\<close> followed by \<open>%\<close>, with a leading \<open>+\<close> exactly when \<open>v\<close>
  is not negative, and for every \<open>v\<close> of magnitude below \<open>10^21\<close> this is \<open>v\<close> to two
  decimal places; \<open>formatPercentage(0)\<close> is \<open>+0.00%\<close> and \<open>formatPercentage(-5.5)\<close> is
  \<open>-5.50%\<close>.
\<close>

theorem formatPercentage_sign:
  "formatPercentage ts None = ''0%'' \<and>
   formatPercentage ts (Some v) = (if 0 \<le> v then ''+'' else []) @ toFixed ts v 2 @ ''%'' \<and>
   (take 1 (formatPercentage ts (Some v)) = ''+'') = (0 \<le> v) \<and>
   (\<bar>v\<bar> < 10 ^ 21 \<longrightarrow>
      formatPercentage ts (Some v) = (if 0 \<le> v then ''+'' else []) @ two_decimals v @ ''%'') \<and>
   formatPercentage ts (Some 0) = ''+0.00%'' \<and>
   formatPercentage ts (Some (- 11 / 2)) = ''-5.50%''"
proof -
  have neg: "v < 0 \<Longrightarrow> take 1 (toFixed ts v 2 @ ''%'') = ''-''"
    using toFixed_negative [of v ts 2] by auto
  have "toFixed ts 0 2 = ''0.00''" "toFixed ts (- 11 / 2) 2 = ''-5.50''"
    by (simp_all add: toFixed_two_decimals decimal_eval)
  then show ?thesis
    using neg by (auto simp: formatPercentage_def toFixed_two_decimals)
qed

theorem formatPercentage_sign_witness:
  "\<bar>25 / 2 :: rat\<bar> < 10 ^ 21 \<and> formatPercentage (\<lambda>_. []) (Some (25 / 2)) = ''+12.50%'' \<and>
   \<bar>- 1 / 1000 :: rat\<bar> < 10 ^ 21 \<and> formatPercentage (\<lambda>_. []) (Some (- 1 / 1000)) = ''-0.00%''"
proof -
  have a: "formatPercentage (\<lambda>_. []) (Some (25 / 2)) = ''+12.50%''"
    using formatPercentage_sign [of "\<lambda>_. []" "25 / 2",
        THEN conjunct2, THEN conjunct2, THEN conjunct2, THEN conjunct1]
    by (simp add: decimal_eval)
  have b: "formatPercentage (\<lambda>_. []) (Some (- 1 / 1000)) = ''-0.00%''"
    using formatPercentage_sign [of "\<lambda>_. []" "- 1 / 1000",
        THEN conjunct2, THEN conjunct2, THEN conjunct2, THEN conjunct1]
    by (simp add: decimal_eval)
  show ?thesis
    using a b by simp
qed

text \<open>
  Stated for every number, the claim fails at the double \<open>1e21\<close>: \<open>toFixed\<close>
  hands a magnitude of \<open>10^21\<close> or more to \<open>Number::toString\<close>, and the string is
  \<open>+1e+21%\<close>, not the two-decimal one.
\<close>

theorem formatPercentage_exponent_notation:
  "fl (10 ^ 21) = 10 ^ 21 \<and>
   (\<forall>ts. formatPercentage ts (Some (10 ^ 21)) = ''+'' @ ts (10 ^ 21) @ ''%'') \<and>
   formatPercentage (\<lambda>_. ''1e+21'') (Some (10 ^ 21)) = ''+1e+21%'' \<and>
   ''+'' @ two_decimals (10 ^ 21) @ ''%'' = ''+1000000000000000000000.00%'' \<and>
   formatPercentage (\<lambda>_. ''1e+21'') (Some (10 ^ 21)) \<noteq> ''+'' @ two_decimals (10 ^ 21) @ ''%''"
proof -
  have "formatPercentage ts (Some (10 ^ 21)) = ''+'' @ ts (10 ^ 21) @ ''%''" for ts
    by (simp add: formatPercentage_def toFixed_def)
  moreover
  have "fl (10 ^ 21) = 10 ^ 21"
    using fl_eval [of 69 "10 ^ 21"] by (simp add: fl_simps)
  moreover have "formatPercentage (\<lambda>_. ''1e+21'') (Some (10 ^ 21)) = ''+1e+21%''"
    by (simp add: formatPercentage_def toFixed_def)
  moreover have "two_decimals (10 ^ 21) = ''1000000000000000000000.00''"
    by (simp add: decimal_eval)
  ultimately show ?thesis by simp
qed

section \<open>Properties of the TVL change\<close>

lemma max_double_large: "2 * 10 ^ 300 + 1 \<le> max_double"
  by (simp add: max_double_def)

lemma round_result_finite: "\<bar>q\<bar> \<le> 10 ^ 300 \<Longrightarrow> round_result q = Inr (fl q)"
proof -
  assume "\<bar>q\<bar> \<le> 10 ^ 300"
  then have "\<bar>fl q\<bar> \<le> max_double"
    using fl_bound [of q] max_double_large by linarith
  then show ?thesis
    by (auto simp: round_result_def Let_def)
qed

lemma fl_10: "fl 10 = 10"
  using fl_eval [of 3 10] by (simp add: fl_simps)

lemma fl_7: "fl 7 = 7"
  using fl_eval [of 2 7] by (simp add: fl_simps)

lemma fl_tenth: "fl (10 / 100) = 3602879701896397 / 36028797018963968"
  using fl_eval [of "- 4" "10 / 100"] by (simp add: fl_simps)

lemma fl_tenth_100: "fl (3602879701896397 / 36028797018963968 * 100) = 10"
  using fl_eval [of 3 "3602879701896397 / 36028797018963968 * 100"]
  by (simp add: fl_simps)

lemma fl_7_100: "fl (7 / 100) = 1261007895663739 / 18014398509481984"
  using fl_eval [of "- 4" "7 / 100"] by (simp add: fl_simps)

lemma fl_7_100_100: "fl (1261007895663739 / 18014398509481984 * 100) = 7 + 1 / 2 ^ 50"
  using fl_eval [of 2 "1261007895663739 / 18014398509481984 * 100"]
  by (simp add: fl_simps)

lemma tvl_change_110: "calculateTvlChange 110 (Some 100) = Inr 10"
proof -
  have "js_sub 110 100 = Inr 10"
    by (simp add: js_sub_def round_result_finite fl_10)
  then have "js_div (js_sub 110 100) 100 = Inr (3602879701896397 / 36028797018963968)"
    using fl_tenth by (simp add: js_div_def round_result_finite)
  then have "js_mul (js_div (js_sub 110 100) 100) 100 = Inr 10"
    using fl_tenth_100 by (simp add: js_mul_def round_result_finite)
  then show ?thesis
    by (simp add: calculateTvlChange_def)
qed

lemma tvl_change_107: "calculateTvlChange 107 (Some 100) = Inr (7 + 1 / 2 ^ 50)"
proof -
  have "js_sub 107 100 = Inr 7"
    by (simp add: js_sub_def round_result_finite fl_7)
  then have "js_div (js_sub 107 100) 100 = Inr (1261007895663739 / 18014398509481984)"
    using fl_7_100 by (simp add: js_div_def round_result_finite)
  then have "js_mul (js_div (js_sub 107 100) 100) 100 = Inr (7 + 1 / 2 ^ 50)"
    using fl_7_100_100 by (simp add: js_mul_def round_result_finite)
  then show ?thesis
    by (simp add: calculateTvlChange_def)
qed

lemma fl_23: "fl 23 = 23"
  using fl_eval [of 4 23] by (simp add: fl_simps)

lemma fl_23_160: "fl (23 / 160) = 2589569785738035 / 18014398509481984"
  using fl_eval [of "- 3" "23 / 160"] by (simp add: fl_simps)

lemma fl_23_160_100:
  "fl (2589569785738035 / 18014398509481984 * 100) = 8092405580431359 / 562949953421312"
  using fl_eval [of 3 "2589569785738035 / 18014398509481984 * 100"]
  by (simp add: fl_simps)

lemma tvl_change_183:
  "calculateTvlChange 183 (Some 160) = Inr (8092405580431359 / 562949953421312)"
proof -
  have "js_sub 183 160 = Inr 23"
    by (simp add: js_sub_def round_result_finite fl_23)
  then have "js_div (js_sub 183 160) 160 = Inr (2589569785738035 / 18014398509481984)"
    using fl_23_160 by (simp add: js_div_def round_result_finite)
  then have "js_mul (js_div (js_sub 183 160) 160) 100 = Inr (8092405580431359 / 562949953421312)"
    using fl_23_160_100 by (simp add: js_mul_def round_result_finite)
  then show ?thesis
    by (simp add: calculateTvlChange_def)
qed

lemma fl_overflow: "fl (max_double - - max_double) = 2 * max_double"
  using fl_eval [of 1024 "max_double - - max_double"]
  by (simp add: fl_simps max_double_def)

lemma tvl_change_overflow: "calculateTvlChange max_double (Some (- max_double)) = Inl NegInfinity"
proof -
  have m: "0 < max_double"
    by (simp add: max_double_def)
  then have "js_sub max_double (- max_double) = Inl PosInfinity"
    using fl_overflow by (simp add: js_sub_def round_result_def Let_def)
  then show ?thesis
    using m by (simp add: calculateTvlChange_def js_div_def js_mul_def)
qed


lemma round_result_cases:
  "round_result q = Inr (fl q) \<or> round_result q = Inl PosInfinity \<or> round_result q = Inl NegInfinity"
  by (simp add: round_result_def Let_def)

lemma js_div_cases:
  assumes "b \<noteq> 0" and "a \<noteq> Inl NaN" and "a \<noteq> Inl ZeroDivide"
  shows "js_div a b \<noteq> Inl NaN \<and> js_div a b \<noteq> Inl ZeroDivide"
proof (cases a)
  case (Inl n)
  with assms show ?thesis
    by (cases n) (simp_all add: js_div_def)
next
  case (Inr x)
  with assms(1) round_result_cases [of "x / b"] show ?thesis
    by (auto simp: js_div_def)
qed

lemma js_mul_cases:
  assumes "b \<noteq> 0" and "a \<noteq> Inl NaN" and "a \<noteq> Inl ZeroDivide"
  shows "js_mul a b \<noteq> Inl NaN \<and> js_mul a b \<noteq> Inl ZeroDivide"
proof (cases a)
  case (Inl n)
  with assms show ?thesis
    by (cases n) (simp_all add: js_mul_def)
next
  case (Inr x)
  with round_result_cases [of "x * b"] show ?thesis
    by (auto simp: js_mul_def)
qed

lemma js_sub_cases: "js_sub a b \<noteq> Inl NaN \<and> js_sub a b \<noteq> Inl ZeroDivide"
  using round_result_cases [of "a - b"] by (auto simp: js_sub_def)

lemma tvl_change_guard:
  "calculateTvlChange current previous \<noteq> Inl NaN \<and>
   calculateTvlChange current previous \<noteq> Inl ZeroDivide"
proof (cases previous)
  case None
  then show ?thesis by (simp add: calculateTvlChange_def)
next
  case (Some p)
  show ?thesis
  proof (cases "p = 0")
    case True
    with Some show ?thesis by (simp add: calculateTvlChange_def)
  next
    case False
    have "js_div (js_sub current p) p \<noteq> Inl NaN \<and> js_div (js_sub current p) p \<noteq> Inl ZeroDivide"
      using False js_sub_cases [of current p] by (intro js_div_cases) simp_all
    then have "js_mul (js_div (js_sub current p) p) 100 \<noteq> Inl NaN \<and>
        js_mul (js_div (js_sub current p) p) 100 \<noteq> Inl ZeroDivide"
      by (intro js_mul_cases) simp_all
    with Some False show ?thesis by (simp add: calculateTvlChange_def)
  qed
qed

text \<open>
  Claim C5. For every pair \<open>(tvl, tvlPrevDay)\<close> of finite numbers the derived change is
  \<open>(tvl - tvlPrevDay) / tvlPrevDay * 100\<close>, in the arithmetic of the doubles, when
  \<open>tvlPrevDay\<close> is truthy, and exactly \<open>0\<close> when it is zero or absent. No division by
  zero is executed: the result is never the quotient by a zero divisor, nor NaN; it is a
  finite number or, when an operation overflows, an infinity. \<open>tvl = 110\<close>,
  \<open>tvlPrevDay = 100\<close> gives exactly \<open>10\<close>, which the table renders as \<open>+10.00%\<close>. The
  rounding shows at \<open>tvl = 107\<close>, \<open>tvlPrevDay = 100\<close>, where the result is
  \<open>7 + 2^-50\<close> (printed \<open>7.000000000000001\<close>), and at \<open>(183, 160)\<close>, where it is the
  double below \<open>14.375\<close>; the overflow shows at the largest double against its negative,
  where the result is \<open>-Infinity\<close>.
\<close>

theorem calculateTvlChange_guarded:
  "calculateTvlChange current None = Inr 0 \<and>
   calculateTvlChange current (Some 0) = Inr 0 \<and>
   (p \<noteq> 0 \<longrightarrow> calculateTvlChange current (Some p) = js_mul (js_div (js_sub current p) p) 100) \<and>
   calculateTvlChange current previous \<noteq> Inl ZeroDivide \<and>
   calculateTvlChange current previous \<noteq> Inl NaN \<and>
   calculateTvlChange 110 (Some 100) = Inr 10 \<and>
   formatNumber ts 10 Percentage = ''+10.00%'' \<and>
   tvl_change_cell ts (row\<lparr>tvl := 110, tvlPrevDay := 100\<rparr>) = Some ''+10.00%'' \<and>
   calculateTvlChange 107 (Some 100) = Inr (7 + 1 / 2 ^ 50) \<and>
   calculateTvlChange 183 (Some 160) = Inr (8092405580431359 / 562949953421312) \<and>
   calculateTvlChange max_double (Some (- max_double)) = Inl NegInfinity \<and>
   tvl_change_cell ts (row\<lparr>tvl := max_double, tvlPrevDay := - max_double\<rparr>) = Some ''-Infinity%''"
proof -
  have f: "formatNumber ts 10 Percentage = ''+10.00%''"
    by (simp add: formatNumber_def toFixed_two_decimals decimal_eval)
  have z: "calculateTvlChange current None = Inr 0" "calculateTvlChange current (Some 0) = Inr 0"
    by (simp_all add: calculateTvlChange_def)
  have g: "p \<noteq> 0 \<longrightarrow> calculateTvlChange current (Some p) = js_mul (js_div (js_sub current p) p) 100"
    by (simp add: calculateTvlChange_def)
  have c: "tvl_change_cell ts (row\<lparr>tvl := 110, tvlPrevDay := 100\<rparr>) = Some ''+10.00%''"
    by (simp add: tvl_change_cell_def tvl_change_110 f)
  have c': "tvl_change_cell ts (row\<lparr>tvl := max_double, tvlPrevDay := - max_double\<rparr>) = Some ''-Infinity%''"
    by (simp add: tvl_change_cell_def tvl_change_overflow)
  show ?thesis
    using tvl_change_guard [of current previous]
    by (simp add: z g f c c' tvl_change_110 tvl_change_107 tvl_change_183 tvl_change_overflow)
qed

theorem calculateTvlChange_guarded_witness:
  "(100 :: rat) \<noteq> 0 \<and> js_mul (js_div (js_sub 110 100) 100) 100 = Inr 10"
proof -
  note t = calculateTvlChange_guarded [of 110 100 None "\<lambda>_. []" "sample_row [] 0 0"]
  have "(100 :: rat) \<noteq> 0" by simp
  with t have "calculateTvlChange 110 (Some 100) = js_mul (js_div (js_sub 110 100) 100) 100"
    by blast
  moreover from t have "calculateTvlChange 110 (Some 100) = Inr 10"
    by blast
  ultimately show ?thesis by simp
qed

section \<open>The callback on the keys of the headers, and the sorts it drives\<close>

lemma row_prop_dotted: "CHR ''.'' \<in> set k \<Longrightarrow> row_prop p k = Undefined"
proof -
  assume dot: "CHR ''.'' \<in> set k"
  have "n \<in> set row_keys \<Longrightarrow> CHR ''.'' \<notin> set n" for n
    by (auto simp: row_keys_def)
  with dot have "k \<notin> set row_keys" by blast
  then show ?thesis by (rule row_prop_absent)
qed

lemma compare_rows_dotted:
  "CHR ''.'' \<in> set k \<Longrightarrow> compare_rows \<lparr>key = k, direction = d\<rparr> a b = Inr (- 1)"
  by (simp add: compare_rows_def sort_values_row row_prop_dotted js_gt_def js_lt_same)

lemma compare_rows_tvl_desc:
  "compare_rows \<lparr>key = ''tvl'', direction = Desc\<rparr> a b = Inr (if tvl a < tvl b then 1 else - 1)"
  by (simp add: compare_rows_def sort_values_row row_prop_scalars js_lt_nums)

lemma compare_rows_tvl_asc:
  "compare_rows \<lparr>key = ''tvl'', direction = Asc\<rparr> a b = Inr (if tvl b < tvl a then 1 else - 1)"
  by (simp add: compare_rows_def sort_values_row row_prop_scalars js_gt_def js_lt_nums)

lemma array_sort_constant:
  assumes "\<And>x y. cmp x y = Inr (- 1)"
  shows "array_sort cmp xs = Inr xs"
proof (induction xs)
  case Nil
  show ?case by simp
next
  case (Cons x xs)
  have "insert_by cmp x xs = Inr (x # xs)"
    by (cases xs) (simp_all add: assms)
  with Cons show ?case by simp
qed

lemma sort_tvl_desc:
  "array_sort (compare_rows \<lparr>key = ''tvl'', direction = Desc\<rparr>) ps = Inr (sort_key (\<lambda>p. - tvl p) ps)"
  by (rule array_sort_sort_key [where c = "\<lambda>a b. if tvl a < tvl b then 1 else - 1"])
    (simp_all add: compare_rows_tvl_desc)

lemma sort_tvl_asc:
  "array_sort (compare_rows \<lparr>key = ''tvl'', direction = Asc\<rparr>) ps = Inr (sort_key tvl ps)"
  by (rule array_sort_sort_key [where c = "\<lambda>a b. if tvl b < tvl a then 1 else - 1"])
    (simp_all add: compare_rows_tvl_asc)

lemma sort_platforms: "array_sort platform_cmp ps = Inr (sort_key fee ps)"
  by (rule array_sort_sort_key [where c = "\<lambda>a b. fee a - fee b"])
    (simp_all add: platform_cmp_def)

section \<open>Properties of the sort callback\<close>

text \<open>
  Claim C10. The callback of the table sort never returns 0: on any two rows, under any
  configuration, it returns 1 or -1. When the two values it compares are equal it
  returns -1 for \<open>(a, b)\<close> and for \<open>(b, a)\<close>, ascending and descending alike, so it is
  not antisymmetric and does not fix the order of rows with equal values.
\<close>


theorem compare_rows_never_zero:
  "(compare_rows cfg a b = Inr 1 \<or> compare_rows cfg a b = Inr (- 1)) \<and>
   compare_rows cfg a b \<noteq> Inr 0 \<and>
   (\<forall>v. sort_values k a b = Inr (v, v) \<longrightarrow>
      sort_values k b a = Inr (v, v) \<and>
      compare_rows \<lparr>key = k, direction = Asc\<rparr> a b = Inr (- 1) \<and>
      compare_rows \<lparr>key = k, direction = Asc\<rparr> b a = Inr (- 1) \<and>
      compare_rows \<lparr>key = k, direction = Desc\<rparr> a b = Inr (- 1) \<and>
      compare_rows \<lparr>key = k, direction = Desc\<rparr> b a = Inr (- 1))"
proof -
  have pm: "compare_rows cfg a b = Inr 1 \<or> compare_rows cfg a b = Inr (- 1)"
    by (rule compare_rows_pm1)
  then have nz: "compare_rows cfg a b \<noteq> Inr 0"
    by auto
  have eq: "sort_values k b a = Inr (v, v) \<and>
      compare_rows \<lparr>key = k, direction = Asc\<rparr> a b = Inr (- 1) \<and>
      compare_rows \<lparr>key = k, direction = Asc\<rparr> b a = Inr (- 1) \<and>
      compare_rows \<lparr>key = k, direction = Desc\<rparr> a b = Inr (- 1) \<and>
      compare_rows \<lparr>key = k, direction = Desc\<rparr> b a = Inr (- 1)"
    if "sort_values k a b = Inr (v, v)" for v
  proof -
    from that have "row_prop a k = v" "row_prop b k = v"
      by (simp_all add: sort_values_row)
    then have "row_prop a k = row_prop b k" "row_prop b k = row_prop a k"
      by simp_all
    then show ?thesis
      using that by (simp add: compare_rows_equal sort_values_row)
  qed
  from pm nz eq show ?thesis by blast
qed

theorem compare_rows_never_zero_witness:
  "sort_values ''tvl'' (sample_row ''a'' 5 1) (sample_row ''b'' 5 2) = Inr (Num 5, Num 5) \<and>
   compare_rows \<lparr>key = ''tvl'', direction = Asc\<rparr> (sample_row ''a'' 5 1) (sample_row ''b'' 5 2) = Inr (- 1) \<and>
   compare_rows \<lparr>key = ''tvl'', direction = Asc\<rparr> (sample_row ''b'' 5 2) (sample_row ''a'' 5 1) = Inr (- 1) \<and>
   compare_rows \<lparr>key = ''tvl'', direction = Desc\<rparr> (sample_row ''a'' 5 1) (sample_row ''b'' 5 2) = Inr (- 1) \<and>
   compare_rows \<lparr>key = ''tvl'', direction = Desc\<rparr> (sample_row ''b'' 5 2) (sample_row ''a'' 5 1) = Inr (- 1)"
proof -
  have v: "sort_values ''tvl'' (sample_row ''a'' 5 1) (sample_row ''b'' 5 2) = Inr (Num 5, Num 5)"
    by (simp add: sort_values_row row_prop_scalars sample_row_def)
  show ?thesis
    using v compare_rows_never_zero [of _ "sample_row ''a'' 5 1" "sample_row ''b'' 5 2" "''tvl''"]
    by blast
qed

text \<open>
  Claim C1 says that sorting by \<open>fees.24h\<close> (or \<open>revenue.24h\<close>) orders the rows by
  \<open>fees['24h']\<close> (or \<open>revenue['24h']\<close>), the key being split on the dot and walked. The
  code does not do that: \<open>a['fees.24h']\<close> is \<open>undefined\<close>, whose \<open>typeof\<close> is not
  \<open>object\<close>, so the walk never starts, both sort values are \<open>undefined\<close> and the callback
  returns -1 whatever the fees are. On three rows with 24h fees 1, 3 and 2 the derived
  order is the stored one in both directions, which is sorted by fees in neither.
\<close>


theorem dotted_key_sorts_nothing:
  "sort_values ''fees.24h'' (sample_row ''a'' 10 1) (sample_row ''b'' 20 3) = Inr (Undefined, Undefined) \<and>
   compare_rows \<lparr>key = ''fees.24h'', direction = Desc\<rparr> (sample_row ''a'' 10 1) (sample_row ''b'' 20 3) = Inr (- 1) \<and>
   compare_rows \<lparr>key = ''fees.24h'', direction = Desc\<rparr> (sample_row ''b'' 20 3) (sample_row ''a'' 10 1) = Inr (- 1) \<and>
   getSortedProtocols
     (sortData ''fees.24h''
        (initial_state\<lparr>protocols := [sample_row ''a'' 10 1, sample_row ''b'' 20 3, sample_row ''c'' 30 2],
           loading := False\<rparr>))
     = Inr [sample_row ''a'' 10 1, sample_row ''b'' 20 3, sample_row ''c'' 30 2] \<and>
   getSortedProtocols
     (sortData ''fees.24h'' (sortData ''fees.24h''
        (initial_state\<lparr>protocols := [sample_row ''a'' 10 1, sample_row ''b'' 20 3, sample_row ''c'' 30 2],
           loading := False\<rparr>)))
     = Inr [sample_row ''a'' 10 1, sample_row ''b'' 20 3, sample_row ''c'' 30 2] \<and>
   getSortedProtocols
     (sortData ''revenue.24h''
        (initial_state\<lparr>protocols := [sample_row ''a'' 10 1, sample_row ''b'' 20 3, sample_row ''c'' 30 2],
           loading := False\<rparr>))
     = Inr [sample_row ''a'' 10 1, sample_row ''b'' 20 3, sample_row ''c'' 30 2] \<and>
   map fees_24h (map fees [sample_row ''a'' 10 1, sample_row ''b'' 20 3, sample_row ''c'' 30 2]) = [1, 3, 2]"
proof -
  have dot: "CHR ''.'' \<in> set ''fees.24h''" "CHR ''.'' \<in> set ''revenue.24h''"
    by simp_all
  have srt: "array_sort (compare_rows \<lparr>key = k, direction = d\<rparr>) ps = Inr ps"
    if "CHR ''.'' \<in> set k" for k d ps
    by (rule array_sort_constant) (rule compare_rows_dotted [OF that])
  show ?thesis
    by (simp add: sort_values_row row_prop_dotted compare_rows_dotted dot srt
        getSortedProtocols_def sortData_def initial_state_def sample_row_def)
qed

section \<open>Properties of the sort configuration\<close>


lemma sortData_twice_tvl:
  "sortConfig s = sortConfig initial_state \<Longrightarrow> sortData ''tvl'' (sortData ''tvl'' s) = s"
  by (simp add: sortData_def initial_state_def)

lemma insert_by_follows:
  assumes "answers_follow cmp f" and "sorted (map f ys)"
  shows "\<exists>zs. insert_by cmp x ys = Inr zs \<and> mset zs = add_mset x (mset ys) \<and> sorted (map f zs)"
  using assms(2)
proof (induction ys)
  case Nil
  show ?case by simp
next
  case (Cons y ys)
  from assms(1) obtain c where c: "cmp x y = Inr c" "c < 0 \<longrightarrow> f x \<le> f y"
      "0 < c \<longrightarrow> f y \<le> f x" "c = 0 \<longrightarrow> f x = f y"
    unfolding answers_follow_def by blast
  have ys: "sorted (map f ys)" and y: "\<forall>z \<in> set ys. f y \<le> f z"
    using Cons.prems by simp_all
  show ?case
  proof (cases "c \<le> 0")
    case True
    with c have "f x \<le> f y" by (cases "c = 0") auto
    with y have "\<forall>z \<in> set (y # ys). f x \<le> f z" by auto
    with Cons.prems True c(1) show ?thesis by simp
  next
    case False
    with c have yx: "f y \<le> f x" by simp
    from Cons.IH [OF ys] obtain zs where zs: "insert_by cmp x ys = Inr zs"
        "mset zs = add_mset x (mset ys)" "sorted (map f zs)"
      by blast
    from zs(2) have "set zs = insert x (set ys)"
      by (metis set_mset_add_mset_insert set_mset_mset)
    with y yx have "\<forall>z \<in> set zs. f y \<le> f z" by auto
    with zs False c(1) show ?thesis by simp
  qed
qed

lemma array_sort_follows:
  assumes "answers_follow cmp f"
  shows "\<exists>ys. array_sort cmp xs = Inr ys \<and> mset ys = mset xs \<and> sorted (map f ys)"
proof (induction xs)
  case Nil
  show ?case by simp
next
  case (Cons x xs)
  then obtain ys where ys: "array_sort cmp xs = Inr ys" "mset ys = mset xs" "sorted (map f ys)"
    by blast
  from insert_by_follows [OF assms ys(3), of x] ys(1,2) show ?case by auto
qed

lemma comparison_sort_array_sort: "comparison_sort array_sort"
  unfolding comparison_sort_def using array_sort_follows by blast

lemma comparison_sort_from_left: "comparison_sort array_sort_from_left"
  unfolding comparison_sort_def array_sort_from_left_def
proof (intro allI impI)
  fix cmp f and xs :: "Protocol list"
  assume "answers_follow cmp f"
  from array_sort_follows [OF this, of "rev xs"]
  show "\<exists>ys. array_sort cmp (rev xs) = Inr ys \<and> mset ys = mset xs \<and> sorted (map f ys)"
    by simp
qed

lemma answers_follow_tvl_desc:
  "answers_follow (compare_rows \<lparr>key = ''tvl'', direction = Desc\<rparr>) (\<lambda>p. - tvl p)"
  by (simp add: answers_follow_def compare_rows_tvl_desc)

lemma answers_follow_tvl_asc:
  "answers_follow (compare_rows \<lparr>key = ''tvl'', direction = Asc\<rparr>) tvl"
  by (simp add: answers_follow_def compare_rows_tvl_asc)

lemma derived_descending:
  assumes "comparison_sort srt" and "sortConfig s = sortConfig initial_state"
  shows "\<exists>rows. getSortedProtocols_with srt s = Inr rows \<and> mset rows = mset (protocols s) \<and>
           sorted_wrt (\<lambda>x y. tvl y \<le> tvl x) rows"
proof -
  have cfg: "sortConfig s = \<lparr>key = ''tvl'', direction = Desc\<rparr>"
    using assms(2) by (simp add: initial_state_def)
  from assms(1) answers_follow_tvl_desc
  obtain ys where ys: "srt (compare_rows \<lparr>key = ''tvl'', direction = Desc\<rparr>) (protocols s) = Inr ys"
      "mset ys = mset (protocols s)" "sorted (map (\<lambda>p. - tvl p) ys)"
    unfolding comparison_sort_def by blast
  from ys(3) have "sorted_wrt (\<lambda>x y. tvl y \<le> tvl x) ys"
    by (simp add: sorted_wrt_map)
  with ys(1,2) show ?thesis
    by (simp add: getSortedProtocols_with_def cfg)
qed

lemma derived_ascending:
  assumes "comparison_sort srt" and "sortConfig s = sortConfig initial_state"
  shows "\<exists>rows. getSortedProtocols_with srt (sortData ''tvl'' s) = Inr rows \<and>
           mset rows = mset (protocols s) \<and> sorted_wrt (\<lambda>x y. tvl x \<le> tvl y) rows"
proof -
  have cfg: "sortConfig (sortData ''tvl'' s) = \<lparr>key = ''tvl'', direction = Asc\<rparr>"
    using assms(2) by (simp add: initial_state_def sortData_def)
  from assms(1) answers_follow_tvl_asc
  obtain ys where ys: "srt (compare_rows \<lparr>key = ''tvl'', direction = Asc\<rparr>) (protocols s) = Inr ys"
      "mset ys = mset (protocols s)" "sorted (map tvl ys)"
    unfolding comparison_sort_def by blast
  from ys(3) have "sorted_wrt (\<lambda>x y. tvl x \<le> tvl y) ys"
    by (simp add: sorted_wrt_map)
  moreover have "protocols (sortData ''tvl'' s) = protocols s"
    by (simp add: sortData_def)
  ultimately show ?thesis
    using ys(1,2) by (simp add: getSortedProtocols_with_def cfg)
qed

text \<open>
  Claim C4. A click on a header sets the key to the clicked one and the direction to
  ascending when the key was already the current one and the direction descending, to
  descending otherwise; so a click on another header always gives descending. Nothing
  else of the state changes. From the initial configuration, two clicks on the TVL
  header give the initial state again, so the derived list is again the original one,
  whatever the engine's sort. That list is the rows in descending order of TVL, a
  permutation of the stored rows, for every comparison sort, and the click in between
  derives an ascending order; the order among rows of equal TVL is the engine's.
\<close>

theorem sortData_toggle:
  "sortConfig (sortData k s) =
     \<lparr>key = k,
      direction = (if key (sortConfig s) = k \<and> direction (sortConfig s) = Desc then Asc else Desc)\<rparr> \<and>
   protocols (sortData k s) = protocols s \<and>
   loading (sortData k s) = loading s \<and>
   error (sortData k s) = error s \<and>
   (key (sortConfig s) = k \<and> direction (sortConfig s) = Desc \<longrightarrow>
      direction (sortConfig (sortData k s)) = Asc) \<and>
   (key (sortConfig s) = k \<and> direction (sortConfig s) = Asc \<longrightarrow>
      direction (sortConfig (sortData k s)) = Desc) \<and>
   (key (sortConfig s) \<noteq> k \<longrightarrow> direction (sortConfig (sortData k s)) = Desc) \<and>
   (sortConfig s = sortConfig initial_state \<longrightarrow>
      sortData ''tvl'' (sortData ''tvl'' s) = s \<and>
      getSortedProtocols_with srt (sortData ''tvl'' (sortData ''tvl'' s)) = getSortedProtocols_with srt s \<and>
      sortConfig (sortData ''fees.24h'' (sortData ''tvl'' s)) =
        \<lparr>key = ''fees.24h'', direction = Desc\<rparr> \<and>
      (comparison_sort srt \<longrightarrow>
         (\<exists>rows. getSortedProtocols_with srt s = Inr rows \<and> mset rows = mset (protocols s) \<and>
            sorted_wrt (\<lambda>x y. tvl y \<le> tvl x) rows) \<and>
         (\<exists>rows. getSortedProtocols_with srt (sortData ''tvl'' s) = Inr rows \<and>
            mset rows = mset (protocols s) \<and> sorted_wrt (\<lambda>x y. tvl x \<le> tvl y) rows))) \<and>
   getSortedProtocols s = getSortedProtocols_with array_sort s"
proof -
  have other: "sortConfig (sortData ''fees.24h'' (sortData ''tvl'' s)) =
        \<lparr>key = ''fees.24h'', direction = Desc\<rparr>"
    by (simp add: sortData_def)
  have toggle: "sortConfig (sortData k s) =
     \<lparr>key = k,
      direction = (if key (sortConfig s) = k \<and> direction (sortConfig s) = Desc then Asc else Desc)\<rparr>"
    "protocols (sortData k s) = protocols s" "loading (sortData k s) = loading s"
    "error (sortData k s) = error s"
    by (simp_all add: sortData_def)
  have dirs: "key (sortConfig s) = k \<and> direction (sortConfig s) = Desc \<longrightarrow>
      direction (sortConfig (sortData k s)) = Asc"
    "key (sortConfig s) = k \<and> direction (sortConfig s) = Asc \<longrightarrow>
      direction (sortConfig (sortData k s)) = Desc"
    "key (sortConfig s) \<noteq> k \<longrightarrow> direction (sortConfig (sortData k s)) = Desc"
    by (simp_all add: sortData_def)
  have same: "getSortedProtocols s = getSortedProtocols_with array_sort s"
    by (simp add: getSortedProtocols_def getSortedProtocols_with_def)
  show ?thesis
    apply (intro conjI impI)
    subgoal by (rule toggle)
    subgoal by (rule toggle)
    subgoal by (rule toggle)
    subgoal by (rule toggle)
    subgoal using dirs(1) by blast
    subgoal using dirs(2) by blast
    subgoal using dirs(3) by blast
    subgoal by (rule sortData_twice_tvl)
    subgoal by (simp add: sortData_twice_tvl)
    subgoal by (rule other)
    subgoal by (rule derived_descending)
    subgoal by (rule derived_ascending)
    subgoal by (rule same)
    done
qed


text \<open>
  Two engines on rows \<open>a\<close>, \<open>b\<close> of TVL 5 and \<open>c\<close> of TVL 9: both derive a descending
  list, \<open>[c, a, b]\<close> and \<open>[c, b, a]\<close>, and each finds its own list again after two clicks.
\<close>

theorem sortData_toggle_witness:
  "sortConfig (initial_state\<lparr>protocols := [sample_row ''a'' 5 1, sample_row ''b'' 5 3, sample_row ''c'' 9 2],
       loading := False\<rparr>) = sortConfig initial_state \<and>
   comparison_sort array_sort \<and>
   comparison_sort array_sort_from_left \<and>
   getSortedProtocols_with array_sort
     (initial_state\<lparr>protocols := [sample_row ''a'' 5 1, sample_row ''b'' 5 3, sample_row ''c'' 9 2],
        loading := False\<rparr>)
     = Inr [sample_row ''c'' 9 2, sample_row ''a'' 5 1, sample_row ''b'' 5 3] \<and>
   getSortedProtocols_with array_sort_from_left
     (initial_state\<lparr>protocols := [sample_row ''a'' 5 1, sample_row ''b'' 5 3, sample_row ''c'' 9 2],
        loading := False\<rparr>)
     = Inr [sample_row ''c'' 9 2, sample_row ''b'' 5 3, sample_row ''a'' 5 1] \<and>
   getSortedProtocols_with array_sort_from_left
     (sortData ''tvl''
       (initial_state\<lparr>protocols := [sample_row ''a'' 5 1, sample_row ''b'' 5 3, sample_row ''c'' 9 2],
          loading := False\<rparr>))
     = Inr [sample_row ''b'' 5 3, sample_row ''a'' 5 1, sample_row ''c'' 9 2] \<and>
   getSortedProtocols_with array_sort_from_left
     (sortData ''tvl'' (sortData ''tvl''
       (initial_state\<lparr>protocols := [sample_row ''a'' 5 1, sample_row ''b'' 5 3, sample_row ''c'' 9 2],
          loading := False\<rparr>)))
     = Inr [sample_row ''c'' 9 2, sample_row ''b'' 5 3, sample_row ''a'' 5 1] \<and>
   sorted_wrt (\<lambda>x y. tvl y \<le> tvl x)
     [sample_row ''c'' 9 2, sample_row ''b'' 5 3, sample_row ''a'' 5 1] \<and>
   key (sortConfig (sortData ''tvl'' initial_state)) \<noteq> ''fees.24h'' \<and>
   direction (sortConfig (sortData ''fees.24h'' (sortData ''tvl'' initial_state))) = Desc"
proof -
  let ?ps = "[sample_row ''a'' 5 1, sample_row ''b'' 5 3, sample_row ''c'' 9 2]"
  let ?s = "initial_state\<lparr>protocols := ?ps, loading := False\<rparr>"
  have c: "sortConfig ?s = sortConfig initial_state"
    by simp
  have cfg: "sortConfig ?s = \<lparr>key = ''tvl'', direction = Desc\<rparr>"
    "sortConfig (sortData ''tvl'' ?s) = \<lparr>key = ''tvl'', direction = Asc\<rparr>"
    "protocols ?s = ?ps" "protocols (sortData ''tvl'' ?s) = ?ps"
    by (simp_all add: initial_state_def sortData_def)
  have t: "tvl (sample_row n t f) = t" for n t f
    by (simp add: sample_row_def)
  have d1: "getSortedProtocols_with array_sort ?s
      = Inr [sample_row ''c'' 9 2, sample_row ''a'' 5 1, sample_row ''b'' 5 3]"
    unfolding getSortedProtocols_with_def cfg sort_tvl_desc by (simp add: t)
  have d2: "getSortedProtocols_with array_sort_from_left ?s
      = Inr [sample_row ''c'' 9 2, sample_row ''b'' 5 3, sample_row ''a'' 5 1]"
    unfolding getSortedProtocols_with_def array_sort_from_left_def cfg sort_tvl_desc by (simp add: t)
  have a2: "getSortedProtocols_with array_sort_from_left (sortData ''tvl'' ?s)
      = Inr [sample_row ''b'' 5 3, sample_row ''a'' 5 1, sample_row ''c'' 9 2]"
    unfolding getSortedProtocols_with_def array_sort_from_left_def cfg sort_tvl_asc by (simp add: t)
  have k: "key (sortConfig (sortData ''tvl'' initial_state)) \<noteq> ''fees.24h''"
    by (simp add: sortData_def)
  from sortData_toggle [of "''tvl''" ?s array_sort_from_left] c
  have "getSortedProtocols_with array_sort_from_left (sortData ''tvl'' (sortData ''tvl'' ?s))
      = getSortedProtocols_with array_sort_from_left ?s"
    by blast
  then have b2: "getSortedProtocols_with array_sort_from_left (sortData ''tvl'' (sortData ''tvl'' ?s))
      = Inr [sample_row ''c'' 9 2, sample_row ''b'' 5 3, sample_row ''a'' 5 1]"
    using d2 by simp
  from sortData_toggle [of "''tvl''" ?s array_sort_from_left] c comparison_sort_from_left
  obtain rows where "getSortedProtocols_with array_sort_from_left ?s = Inr rows"
      and "sorted_wrt (\<lambda>x y. tvl y \<le> tvl x) rows"
    by blast
  with d2 have sd: "sorted_wrt (\<lambda>x y. tvl y \<le> tvl x)
      [sample_row ''c'' 9 2, sample_row ''b'' 5 3, sample_row ''a'' 5 1]"
    by simp
  from sortData_toggle [of "''fees.24h''" "sortData ''tvl'' initial_state" array_sort] k
  have o: "direction (sortConfig (sortData ''fees.24h'' (sortData ''tvl'' initial_state))) = Desc"
    by blast
  show ?thesis
    apply (intro conjI)
    subgoal by (rule c)
    subgoal by (rule comparison_sort_array_sort)
    subgoal by (rule comparison_sort_from_left)
    subgoal by (rule d1)
    subgoal by (rule d2)
    subgoal by (rule a2)
    subgoal by (rule b2)
    subgoal by (rule sd)
    subgoal by (rule k)
    subgoal by (rule o)
    done
qed

section \<open>Properties of the platform list\<close>

lemma flagged_fst: "map fst (map (\<lambda>(index, x). (x, index = m)) (enumerate n xs)) = xs"
  by (induction xs arbitrary: n) simp_all

lemma flagged_snd:
  "map snd (map (\<lambda>(index, x). (x, index = m)) (enumerate n xs)) = map (\<lambda>i. i = m) [n..<n + length xs]"
proof (induction xs arbitrary: n)
  case Nil
  show ?case by simp
next
  case (Cons x xs)
  have "[n..<n + length (x # xs)] = n # [Suc n..<Suc n + length xs]"
    by (subst upt_rec) simp
  with Cons [of "Suc n"] show ?case by simp
qed

lemma render_platforms_sorted:
  "render_platforms True platforms =
     Inr (map (\<lambda>(index, platform). (platform, index = 0)) (enumerate 0 (sort_key fee platforms)))"
  by (simp add: render_platforms_def sortedPlatforms_def sort_platforms)

text \<open>
  Claim C8. For every list of platforms given to the card, the rendered list is that
  list sorted by ascending fee (a permutation of the input, platforms of equal fee in
  their input order), and the entry at index 0 of the sorted order, and no other, carries
  the "Best Rate" flag. Fees 5, 1, 3 render in the order 1, 3, 5 with the flag on the
  platform of fee 1 only.
\<close>


theorem platforms_sorted_best_first:
  "(\<exists>rows. render_platforms True platforms = Inr rows \<and>
      map fst rows = sort_key fee platforms \<and>
      sorted (map fee (map fst rows)) \<and>
      mset (map fst rows) = mset platforms \<and>
      filter (\<lambda>p. fee p = k) (map fst rows) = filter (\<lambda>p. fee p = k) platforms \<and>
      map snd rows = map (\<lambda>i. i = 0) [0..<length platforms]) \<and>
   sortedPlatforms platforms = Inr (sort_key fee platforms) \<and>
   render_platforms True
     [sample_platform ''a'' 5, sample_platform ''b'' 1, sample_platform ''c'' 3] =
     Inr [(sample_platform ''b'' 1, True), (sample_platform ''c'' 3, False),
          (sample_platform ''a'' 5, False)]"
proof -
  let ?rows = "map (\<lambda>(index, platform). (platform, index = 0)) (enumerate 0 (sort_key fee platforms))"
  have r: "render_platforms True platforms = Inr ?rows"
    by (rule render_platforms_sorted)
  have f: "map fst ?rows = sort_key fee platforms"
    by (rule flagged_fst)
  have s: "map snd ?rows = map (\<lambda>i. i = 0) [0..<length platforms]"
    using flagged_snd [of 0 0 "sort_key fee platforms"] by simp
  have st: "filter (\<lambda>p. fee p = k) (sort_key fee platforms) = filter (\<lambda>p. fee p = k) platforms"
    by (rule sort_key_stable)
  have first: "\<exists>rows. render_platforms True platforms = Inr rows \<and>
      map fst rows = sort_key fee platforms \<and>
      sorted (map fee (map fst rows)) \<and>
      mset (map fst rows) = mset platforms \<and>
      filter (\<lambda>p. fee p = k) (map fst rows) = filter (\<lambda>p. fee p = k) platforms \<and>
      map snd rows = map (\<lambda>i. i = 0) [0..<length platforms]"
    using r f s st by (intro exI [of _ ?rows]) (simp del: map_map)
  have ex: "render_platforms True
     [sample_platform ''a'' 5, sample_platform ''b'' 1, sample_platform ''c'' 3] =
     Inr [(sample_platform ''b'' 1, True), (sample_platform ''c'' 3, False),
          (sample_platform ''a'' 5, False)]"
    by (simp add: render_platforms_sorted sample_platform_def)
  show ?thesis
    using first ex by (simp add: sortedPlatforms_def sort_platforms)
qed

section \<open>Sorting and the stored arrays\<close>


lemma insert_by_total:
  assumes "\<And>x y. \<exists>c. cmp x y = Inr c"
  shows "\<exists>zs. insert_by cmp x ys = Inr zs"
proof (induction ys)
  case Nil
  show ?case by simp
next
  case (Cons y ys)
  obtain c where "cmp x y = Inr c" using assms by blast
  moreover obtain zs where "insert_by cmp x ys = Inr zs" using Cons by blast
  ultimately show ?case by simp
qed

lemma array_sort_total:
  assumes "\<And>x y. \<exists>c. cmp x y = Inr c"
  shows "\<exists>ys. array_sort cmp xs = Inr ys"
proof (induction xs)
  case Nil
  show ?case by simp
next
  case (Cons x xs)
  then obtain ys where "array_sort cmp xs = Inr ys" by blast
  moreover have "\<exists>zs. insert_by cmp x ys = Inr zs"
    by (rule insert_by_total) (rule assms)
  ultimately show ?case by auto
qed

lemma sort_rows_total: "\<exists>ys. array_sort (compare_rows cfg) xs = Inr ys"
proof (rule array_sort_total)
  fix x y
  show "\<exists>c. compare_rows cfg x y = Inr c"
    using compare_rows_pm1 [of cfg x y] by blast
qed

lemma deref_append_old: "r' < length h \<Longrightarrow> deref (h @ [ys]) r' = deref h r'"
  by (simp add: deref_def nth_append)

lemma deref_append_new: "deref (h @ [ys]) (length h) = ys"
  by (simp add: deref_def)

lemma copy_sort_store:
  "array_sort cmp (deref h r) = Inr ys \<Longrightarrow>
   (case spread h r of (c, h') \<Rightarrow> sort_in_place cmp h' c) = (Inr (length h), h @ [ys])"
  by (simp add: spread_def sort_in_place_def deref_def)

text \<open>
  Sorting an array in place does change it: without the copy the input would be
  reordered.
\<close>


lemma sort_in_place_mutates:
  "sort_in_place platform_cmp
     [[sample_platform ''a'' 5, sample_platform ''b'' 1, sample_platform ''c'' 3]] 0 =
   (Inr 0, [[sample_platform ''b'' 1, sample_platform ''c'' 3, sample_platform ''a'' 5]])"
proof -
  have fe: "fee (sample_platform n f) = f" for n f
    by (simp add: sample_platform_def)
  have "sort_key fee [sample_platform ''a'' 5, sample_platform ''b'' 1, sample_platform ''c'' 3]
      = [sample_platform ''b'' 1, sample_platform ''c'' 3, sample_platform ''a'' 5]"
    by (simp add: fe)
  then show ?thesis
    unfolding sort_in_place_def sort_platforms by (simp add: deref_def)
qed

text \<open>
  Claim C9. Sorting is a derivation that leaves its input unchanged. Whatever the sort
  configuration and the store, \<open>getSortedProtocols\<close> returns a new array (its reference
  is not one of the store) holding the sorted rows, and every array that was in the
  store, the stored protocols among them, has the same elements in the same order
  afterwards. The same holds for the platform sort of the card and \<open>token.platforms\<close>.
\<close>


theorem sorting_copies_its_input:
  "(\<forall>r'. r' < length h \<longrightarrow> deref (snd (getSortedProtocols_store cfg h r)) r' = deref h r') \<and>
   fst (getSortedProtocols_store cfg h r) = Inr (length h) \<and>
   Inr (deref (snd (getSortedProtocols_store cfg h r)) (length h)) =
     getSortedProtocols \<lparr>protocols = deref h r, loading = l, error = e, sortConfig = cfg\<rparr> \<and>
   (\<forall>q'. q' < length g \<longrightarrow> deref (snd (sortedPlatforms_store g q)) q' = deref g q') \<and>
   fst (sortedPlatforms_store g q) = Inr (length g) \<and>
   Inr (deref (snd (sortedPlatforms_store g q)) (length g)) = sortedPlatforms (deref g q)"
proof -
  obtain ys where ys: "array_sort (compare_rows cfg) (deref h r) = Inr ys"
    using sort_rows_total by blast
  have a: "getSortedProtocols_store cfg h r = (Inr (length h), h @ [ys])"
    unfolding getSortedProtocols_store_def by (rule copy_sort_store [OF ys])
  have zs: "array_sort platform_cmp (deref g q) = Inr (sort_key fee (deref g q))"
    by (rule sort_platforms)
  have b: "sortedPlatforms_store g q =
      (Inr (length g), g @ [sort_key fee (deref g q)])"
    unfolding sortedPlatforms_store_def by (rule copy_sort_store [OF zs])
  show ?thesis
    by (simp add: a b deref_append_old deref_append_new getSortedProtocols_def ys
        sortedPlatforms_def zs)
qed

theorem sorting_copies_its_input_witness:
  "(0 :: nat) < length [[sample_row ''b'' 30 3, sample_row ''a'' 10 1]] \<and>
   deref (snd (getSortedProtocols_store \<lparr>key = ''tvl'', direction = Asc\<rparr>
       [[sample_row ''b'' 30 3, sample_row ''a'' 10 1]] 0)) 0
     = [sample_row ''b'' 30 3, sample_row ''a'' 10 1] \<and>
   deref (snd (getSortedProtocols_store \<lparr>key = ''tvl'', direction = Asc\<rparr>
       [[sample_row ''b'' 30 3, sample_row ''a'' 10 1]] 0)) 1
     = [sample_row ''a'' 10 1, sample_row ''b'' 30 3] \<and>
   (0 :: nat) < length [[sample_platform ''a'' 5, sample_platform ''b'' 1, sample_platform ''c'' 3]] \<and>
   deref (snd (sortedPlatforms_store
       [[sample_platform ''a'' 5, sample_platform ''b'' 1, sample_platform ''c'' 3]] 0)) 0
     = [sample_platform ''a'' 5, sample_platform ''b'' 1, sample_platform ''c'' 3] \<and>
   deref (snd (sortedPlatforms_store
       [[sample_platform ''a'' 5, sample_platform ''b'' 1, sample_platform ''c'' 3]] 0)) 1
     = [sample_platform ''b'' 1, sample_platform ''c'' 3, sample_platform ''a'' 5]"
proof -
  let ?h = "[[sample_row ''b'' 30 3, sample_row ''a'' 10 1]]"
  let ?g = "[[sample_platform ''a'' 5, sample_platform ''b'' 1, sample_platform ''c'' 3]]"
  let ?cfg = "\<lparr>key = ''tvl'', direction = Asc\<rparr>"
  note t = sorting_copies_its_input [of ?h ?cfg 0 True None ?g 0]
  have h0: "deref ?h 0 = [sample_row ''b'' 30 3, sample_row ''a'' 10 1]"
    and g0: "deref ?g 0 = [sample_platform ''a'' 5, sample_platform ''b'' 1, sample_platform ''c'' 3]"
    by (simp_all add: deref_def)
  have tv: "tvl (sample_row n t f) = t" for n t f
    by (simp add: sample_row_def)
  have fe: "fee (sample_platform n f) = f" for n f
    by (simp add: sample_platform_def)
  have "getSortedProtocols \<lparr>protocols = deref ?h 0, loading = True, error = None, sortConfig = ?cfg\<rparr>
      = array_sort (compare_rows ?cfg) (deref ?h 0)"
    by (simp add: getSortedProtocols_def)
  also have "\<dots> = Inr (sort_key tvl (deref ?h 0))"
    by (rule sort_tvl_asc)
  also have "\<dots> = Inr [sample_row ''a'' 10 1, sample_row ''b'' 30 3]"
    unfolding h0 by (simp add: tv)
  finally have rows: "getSortedProtocols \<lparr>protocols = deref ?h 0, loading = True, error = None, sortConfig = ?cfg\<rparr>
      = Inr [sample_row ''a'' 10 1, sample_row ''b'' 30 3]" .
  have "sortedPlatforms (deref ?g 0) = Inr (sort_key fee (deref ?g 0))"
    unfolding sortedPlatforms_def by (rule sort_platforms)
  also have "\<dots> = Inr [sample_platform ''b'' 1, sample_platform ''c'' 3, sample_platform ''a'' 5]"
    unfolding g0 by (simp add: fe)
  finally have pls: "sortedPlatforms (deref ?g 0)
      = Inr [sample_platform ''b'' 1, sample_platform ''c'' 3, sample_platform ''a'' 5]" .
  from t have "deref (snd (getSortedProtocols_store ?cfg ?h 0)) 0 = deref ?h 0"
    and "Inr (deref (snd (getSortedProtocols_store ?cfg ?h 0)) (length ?h)) =
       getSortedProtocols \<lparr>protocols = deref ?h 0, loading = True, error = None, sortConfig = ?cfg\<rparr>"
    and "deref (snd (sortedPlatforms_store ?g 0)) 0 = deref ?g 0"
    and "Inr (deref (snd (sortedPlatforms_store ?g 0)) (length ?g)) = sortedPlatforms (deref ?g 0)"
    by simp_all
  then show ?thesis
    using rows pls h0 g0 by simp
qed

section \<open>Properties of the merge\<close>

lemma map_throw_all2: "map_throw f xs = Inr ys \<Longrightarrow> list_all2 (\<lambda>x y. f x = Inr y) xs ys"
  by (induction xs arbitrary: ys) (auto split: sum.splits)

lemma map_throw_total: "(\<And>x. x \<in> set xs \<Longrightarrow> \<exists>y. f x = Inr y) \<Longrightarrow> \<exists>ys. map_throw f xs = Inr ys"
proof (induction xs)
  case Nil
  show ?case by simp
next
  case (Cons x xs)
  obtain y where "f x = Inr y" using Cons.prems by auto
  moreover obtain ys where "map_throw f xs = Inr ys" using Cons by auto
  ultimately show ?case by simp
qed

lemma fee_entries_keys:
  "fee_entries tmsg toLowerCase fs = Inr es \<Longrightarrow> map (\<lambda>e. Some (fst e)) es = fee_names toLowerCase fs \<and> map snd es = fs"
  by (induction fs arbitrary: es) (auto simp: fee_names_def split: option.splits sum.splits)

lemma fee_entries_total:
  "None \<notin> set (map rf_name fs) \<Longrightarrow> \<exists>es. fee_entries tmsg toLowerCase fs = Inr es"
  by (induction fs) (auto split: option.splits)

lemma foldl_update_map_of:
  "foldl (\<lambda>m (k, v). m(k \<mapsto> v)) m0 es = m0 ++ map_of (rev es)"
  by (induction es arbitrary: m0) (auto simp: map_of_append map_add_def fun_eq_iff split: option.splits)

lemma new_Map_map_of: "new_Map es = map_of (rev es)"
  by (simp add: new_Map_def foldl_update_map_of)

lemma new_Map_None: "new_Map es k = None \<longleftrightarrow> k \<notin> fst ` set es"
  by (simp add: new_Map_map_of map_of_eq_None_iff)

lemma new_Map_absent:
  assumes "fee_entries tmsg toLowerCase fs = Inr es" and "Some k \<notin> set (fee_names toLowerCase fs)"
  shows "new_Map es k = None"
proof -
  have "set (fee_names toLowerCase fs) = (\<lambda>e. Some (fst e)) ` set es"
    using fee_entries_keys [OF assms(1)] by (metis set_map)
  with assms(2) have "k \<notin> fst ` set es" by auto
  then show ?thesis by (simp add: new_Map_None)
qed

lemma transform_name: "transform tmsg toLowerCase feesMap p = Inr row \<Longrightarrow> rp_name p = Some (name row)"
  by (auto simp: transform_def split: option.splits)

lemmas lower_eval = ascii_lower_def lower_char_def char_of_def bit_Suc_0_iff

lemma lower_test: "ascii_lower ''Lido Fi-Z9a'' = ''lido fi-z9a''"
  by (simp add: lower_eval)

lemmas latin1_eval = latin1_lower_def latin1_lower_char_def char_of_def bit_Suc_0_iff

lemma latin1_test:
  "latin1_lower (CHR 0xC9 # ''ther'') = CHR 0xE9 # ''ther''"
  "latin1_lower (CHR 0xE9 # ''THER'') = CHR 0xE9 # ''ther''"
  by (simp_all add: latin1_eval)

lemma transform_absent:
  assumes "transform tmsg toLowerCase feesMap p = Inr row" and "feesMap (toLowerCase (name row)) = None"
  shows "all_fee_fields_zero row"
proof -
  obtain n where n: "rp_name p = Some n"
    using assms(1) by (cases "rp_name p") (simp_all add: transform_def)
  have z: "num_or None 0 = 0"
    by (simp add: num_or_def)
  from assms(1) have nm: "name row = n"
    unfolding transform_def n by (auto simp: Let_def)
  with assms(2) have "feesMap (toLowerCase n) = None"
    by simp
  with assms(1) show ?thesis
    unfolding transform_def n all_fee_fields_zero_def
    by (auto simp: empty_fees_def z)
qed

lemma num_or_None: "num_or None 0 = 0"
  by (simp add: num_or_def)

lemma num_or_Some: "num_or (Some x) 0 = x"
  by (simp add: num_or_def)

lemma transform_fields:
  assumes "transform tmsg toLowerCase feesMap p = Inr row"
  shows
    "tvl row = num_or (rp_tvl p) 0 \<and> tvlPrevDay row = num_or (rp_tvlPrevDay p) 0 \<and>
     tvlPrevMonth row = num_or (rp_tvlPrevMonth p) 0 \<and> mcap row = num_or (rp_mcap p) 0"
    "fees_24h (fees row) = num_or (rf_total24h (fees_info toLowerCase feesMap (name row))) 0 \<and>
     fees_7d (fees row) = num_or (rf_total7d (fees_info toLowerCase feesMap (name row))) 0 \<and>
     fees_30d (fees row) = num_or (rf_total30d (fees_info toLowerCase feesMap (name row))) 0 \<and>
     fees_monthlyAvg1y (fees row) = num_or (rf_monthlyAvg1y (fees_info toLowerCase feesMap (name row))) 0 \<and>
     revenue_24h (revenue row) = num_or (rf_revenue24h (fees_info toLowerCase feesMap (name row))) 0 \<and>
     revenue_7d (revenue row) = num_or (rf_revenue7d (fees_info toLowerCase feesMap (name row))) 0 \<and>
     revenue_30d (revenue row) = num_or (rf_revenue30d (fees_info toLowerCase feesMap (name row))) 0 \<and>
     revenue_1y (revenue row) = num_or (rf_revenue1y (fees_info toLowerCase feesMap (name row))) 0 \<and>
     userFees24h row = num_or (rf_userFees24h (fees_info toLowerCase feesMap (name row))) 0 \<and>
     cumulativeFees row = num_or (rf_cumulativeFees (fees_info toLowerCase feesMap (name row))) 0 \<and>
     holdersRevenue_24h (holdersRevenue row) = num_or (rf_holdersRevenue24h (fees_info toLowerCase feesMap (name row))) 0 \<and>
     holdersRevenue_30d (holdersRevenue row) = num_or (rf_holdersRevenue30d (fees_info toLowerCase feesMap (name row))) 0 \<and>
     treasuryRevenue24h row = num_or (rf_treasuryRevenue24h (fees_info toLowerCase feesMap (name row))) 0 \<and>
     supplyRevenue row = num_or (rf_supplyRevenue (fees_info toLowerCase feesMap (name row))) 0 \<and>
     volume_24h (volume row) = num_or (rf_volume24h (fees_info toLowerCase feesMap (name row))) 0 \<and>
     volume_change7d (volume row) = num_or (rf_volumeChange7d (fees_info toLowerCase feesMap (name row))) 0 \<and>
     volume_cumulative (volume row) = num_or (rf_cumulativeVolume (fees_info toLowerCase feesMap (name row))) 0"
proof -
  obtain n where n: "rp_name p = Some n"
    using assms by (cases "rp_name p") (simp_all add: transform_def)
  from assms show
    "tvl row = num_or (rp_tvl p) 0 \<and> tvlPrevDay row = num_or (rp_tvlPrevDay p) 0 \<and>
     tvlPrevMonth row = num_or (rp_tvlPrevMonth p) 0 \<and> mcap row = num_or (rp_mcap p) 0"
    unfolding transform_def n by (auto simp: Let_def)
  from assms show
    "fees_24h (fees row) = num_or (rf_total24h (fees_info toLowerCase feesMap (name row))) 0 \<and>
     fees_7d (fees row) = num_or (rf_total7d (fees_info toLowerCase feesMap (name row))) 0 \<and>
     fees_30d (fees row) = num_or (rf_total30d (fees_info toLowerCase feesMap (name row))) 0 \<and>
     fees_monthlyAvg1y (fees row) = num_or (rf_monthlyAvg1y (fees_info toLowerCase feesMap (name row))) 0 \<and>
     revenue_24h (revenue row) = num_or (rf_revenue24h (fees_info toLowerCase feesMap (name row))) 0 \<and>
     revenue_7d (revenue row) = num_or (rf_revenue7d (fees_info toLowerCase feesMap (name row))) 0 \<and>
     revenue_30d (revenue row) = num_or (rf_revenue30d (fees_info toLowerCase feesMap (name row))) 0 \<and>
     revenue_1y (revenue row) = num_or (rf_revenue1y (fees_info toLowerCase feesMap (name row))) 0 \<and>
     userFees24h row = num_or (rf_userFees24h (fees_info toLowerCase feesMap (name row))) 0 \<and>
     cumulativeFees row = num_or (rf_cumulativeFees (fees_info toLowerCase feesMap (name row))) 0 \<and>
     holdersRevenue_24h (holdersRevenue row) = num_or (rf_holdersRevenue24h (fees_info toLowerCase feesMap (name row))) 0 \<and>
     holdersRevenue_30d (holdersRevenue row) = num_or (rf_holdersRevenue30d (fees_info toLowerCase feesMap (name row))) 0 \<and>
     treasuryRevenue24h row = num_or (rf_treasuryRevenue24h (fees_info toLowerCase feesMap (name row))) 0 \<and>
     supplyRevenue row = num_or (rf_supplyRevenue (fees_info toLowerCase feesMap (name row))) 0 \<and>
     volume_24h (volume row) = num_or (rf_volume24h (fees_info toLowerCase feesMap (name row))) 0 \<and>
     volume_change7d (volume row) = num_or (rf_volumeChange7d (fees_info toLowerCase feesMap (name row))) 0 \<and>
     volume_cumulative (volume row) = num_or (rf_cumulativeVolume (fees_info toLowerCase feesMap (name row))) 0"
    unfolding transform_def n fees_info_def by (auto simp: Let_def)
qed

lemma transform_total: "rp_name p \<noteq> None \<Longrightarrow> \<exists>row. transform tmsg toLowerCase feesMap p = Inr row"
  by (cases "rp_name p") (simp_all add: transform_def Let_def)

lemma merge_data_rows:
  assumes "merge_data tmsg toLowerCase protocolsData (Some fs) = Inr rows"
  shows "list_all2
      (\<lambda>p row. rp_name p = Some (name row) \<and>
         (Some (toLowerCase (name row)) \<notin> set (fee_names toLowerCase fs) \<longrightarrow> all_fee_fields_zero row) \<and>
         tvl row = num_or (rp_tvl p) 0 \<and> tvlPrevDay row = num_or (rp_tvlPrevDay p) 0 \<and>
         tvlPrevMonth row = num_or (rp_tvlPrevMonth p) 0 \<and> mcap row = num_or (rp_mcap p) 0)
      (filter (\<lambda>p. rp_category p = Some ''Liquid Staking'') protocolsData) rows"
proof -
  from assms obtain es where es: "fee_entries tmsg toLowerCase fs = Inr es"
    by (cases "fee_entries tmsg toLowerCase fs") (simp_all add: merge_data_def)
  with assms have "map_throw (transform tmsg toLowerCase (new_Map es))
      (filter (\<lambda>p. rp_category p = Some ''Liquid Staking'') protocolsData) = Inr rows"
    by (simp add: merge_data_def)
  then have "list_all2 (\<lambda>p row. transform tmsg toLowerCase (new_Map es) p = Inr row)
      (filter (\<lambda>p. rp_category p = Some ''Liquid Staking'') protocolsData) rows"
    by (rule map_throw_all2)
  then show ?thesis
  proof (rule list_all2_mono)
    fix p row
    assume t: "transform tmsg toLowerCase (new_Map es) p = Inr row"
    have "all_fee_fields_zero row" if "Some (toLowerCase (name row)) \<notin> set (fee_names toLowerCase fs)"
      using t new_Map_absent [OF es that] by (rule transform_absent)
    then show "rp_name p = Some (name row) \<and>
         (Some (toLowerCase (name row)) \<notin> set (fee_names toLowerCase fs) \<longrightarrow> all_fee_fields_zero row) \<and>
         tvl row = num_or (rp_tvl p) 0 \<and> tvlPrevDay row = num_or (rp_tvlPrevDay p) 0 \<and>
         tvlPrevMonth row = num_or (rp_tvlPrevMonth p) 0 \<and> mcap row = num_or (rp_mcap p) 0"
      using transform_name [OF t] transform_fields(1) [OF t] by blast
  qed
qed

lemma merge_data_total:
  assumes "None \<notin> set (map rf_name fs)"
    and "\<And>p. p \<in> set protocolsData \<Longrightarrow> rp_category p = Some ''Liquid Staking'' \<Longrightarrow> rp_name p \<noteq> None"
  shows "\<exists>rows. merge_data tmsg toLowerCase protocolsData (Some fs) = Inr rows"
proof -
  obtain es where es: "fee_entries tmsg toLowerCase fs = Inr es"
    using fee_entries_total [OF assms(1)] by blast
  have "\<exists>rows. map_throw (transform tmsg toLowerCase (new_Map es))
      (filter (\<lambda>p. rp_category p = Some ''Liquid Staking'') protocolsData) = Inr rows"
  proof (rule map_throw_total)
    fix p
    assume "p \<in> set (filter (\<lambda>p. rp_category p = Some ''Liquid Staking'') protocolsData)"
    then have "p \<in> set protocolsData" "rp_category p = Some ''Liquid Staking''"
      by simp_all
    then have "rp_name p \<noteq> None"
      by (rule assms(2))
    then show "\<exists>row. transform tmsg toLowerCase (new_Map es) p = Inr row"
      by (rule transform_total)
  qed
  then obtain rows where "map_throw (transform tmsg toLowerCase (new_Map es))
      (filter (\<lambda>p. rp_category p = Some ''Liquid Staking'') protocolsData) = Inr rows"
    by blast
  then have "merge_data tmsg toLowerCase protocolsData (Some fs) = Inr rows"
    unfolding merge_data_def by (simp add: es)
  then show ?thesis ..
qed

text \<open>
  Claim C3. Whatever the case mapping \<open>toLowerCase\<close> of the engine is: for every
  protocol retained by the category filter whose lowercased name is not a key of the fee
  lookup table (the keys are the lowercased names of the fee records), the transform produces a row, one per retained
  protocol and in their order, in which every fee, revenue, holders' revenue and volume
  sub-field, \<open>userFees24h\<close>, \<open>cumulativeFees\<close>, \<open>treasuryRevenue24h\<close> and
  \<open>supplyRevenue\<close> is 0. More generally every numeric field of a row is \<open>raw || 0\<close> for
  its raw field, which is 0 when the raw field is absent and the raw value otherwise.
  The merge returns rows whenever every fee record and every retained protocol has a
  name.
\<close>

theorem missing_fees_default_to_zero:
  "(merge_data tmsg toLowerCase protocolsData (Some fs) = Inr rows \<longrightarrow>
      list_all2
        (\<lambda>p row. rp_name p = Some (name row) \<and>
           (Some (toLowerCase (name row)) \<notin> set (fee_names toLowerCase fs) \<longrightarrow> all_fee_fields_zero row) \<and>
           tvl row = num_or (rp_tvl p) 0 \<and> tvlPrevDay row = num_or (rp_tvlPrevDay p) 0 \<and>
           tvlPrevMonth row = num_or (rp_tvlPrevMonth p) 0 \<and> mcap row = num_or (rp_mcap p) 0)
        (filter (\<lambda>p. rp_category p = Some ''Liquid Staking'') protocolsData) rows) \<and>
   (None \<notin> set (map rf_name fs) \<and>
    (\<forall>p \<in> set protocolsData. rp_category p = Some ''Liquid Staking'' \<longrightarrow> rp_name p \<noteq> None) \<longrightarrow>
      (\<exists>rows'. merge_data tmsg toLowerCase protocolsData (Some fs) = Inr rows')) \<and>
   (transform tmsg toLowerCase feesMap p = Inr row \<longrightarrow>
      (feesMap (toLowerCase (name row)) = None \<longrightarrow> all_fee_fields_zero row) \<and>
      fees_24h (fees row) = num_or (rf_total24h (fees_info toLowerCase feesMap (name row))) 0 \<and>
      fees_7d (fees row) = num_or (rf_total7d (fees_info toLowerCase feesMap (name row))) 0 \<and>
      fees_30d (fees row) = num_or (rf_total30d (fees_info toLowerCase feesMap (name row))) 0 \<and>
      fees_monthlyAvg1y (fees row) = num_or (rf_monthlyAvg1y (fees_info toLowerCase feesMap (name row))) 0 \<and>
      revenue_24h (revenue row) = num_or (rf_revenue24h (fees_info toLowerCase feesMap (name row))) 0 \<and>
      revenue_7d (revenue row) = num_or (rf_revenue7d (fees_info toLowerCase feesMap (name row))) 0 \<and>
      revenue_30d (revenue row) = num_or (rf_revenue30d (fees_info toLowerCase feesMap (name row))) 0 \<and>
      revenue_1y (revenue row) = num_or (rf_revenue1y (fees_info toLowerCase feesMap (name row))) 0 \<and>
      userFees24h row = num_or (rf_userFees24h (fees_info toLowerCase feesMap (name row))) 0 \<and>
      cumulativeFees row = num_or (rf_cumulativeFees (fees_info toLowerCase feesMap (name row))) 0 \<and>
      holdersRevenue_24h (holdersRevenue row) = num_or (rf_holdersRevenue24h (fees_info toLowerCase feesMap (name row))) 0 \<and>
      holdersRevenue_30d (holdersRevenue row) = num_or (rf_holdersRevenue30d (fees_info toLowerCase feesMap (name row))) 0 \<and>
      treasuryRevenue24h row = num_or (rf_treasuryRevenue24h (fees_info toLowerCase feesMap (name row))) 0 \<and>
      supplyRevenue row = num_or (rf_supplyRevenue (fees_info toLowerCase feesMap (name row))) 0 \<and>
      volume_24h (volume row) = num_or (rf_volume24h (fees_info toLowerCase feesMap (name row))) 0 \<and>
      volume_change7d (volume row) = num_or (rf_volumeChange7d (fees_info toLowerCase feesMap (name row))) 0 \<and>
      volume_cumulative (volume row) = num_or (rf_cumulativeVolume (fees_info toLowerCase feesMap (name row))) 0) \<and>
   num_or None 0 = 0 \<and> num_or (Some x) 0 = x"
proof -
  have a: "merge_data tmsg toLowerCase protocolsData (Some fs) = Inr rows \<longrightarrow>
      list_all2
        (\<lambda>p row. rp_name p = Some (name row) \<and>
           (Some (toLowerCase (name row)) \<notin> set (fee_names toLowerCase fs) \<longrightarrow> all_fee_fields_zero row) \<and>
           tvl row = num_or (rp_tvl p) 0 \<and> tvlPrevDay row = num_or (rp_tvlPrevDay p) 0 \<and>
           tvlPrevMonth row = num_or (rp_tvlPrevMonth p) 0 \<and> mcap row = num_or (rp_mcap p) 0)
        (filter (\<lambda>p. rp_category p = Some ''Liquid Staking'') protocolsData) rows"
    using merge_data_rows by blast
  have b: "None \<notin> set (map rf_name fs) \<and>
    (\<forall>p \<in> set protocolsData. rp_category p = Some ''Liquid Staking'' \<longrightarrow> rp_name p \<noteq> None) \<longrightarrow>
      (\<exists>rows'. merge_data tmsg toLowerCase protocolsData (Some fs) = Inr rows')"
    using merge_data_total [of fs protocolsData tmsg toLowerCase] by blast
  have c: "feesMap (toLowerCase (name row)) = None \<longrightarrow> all_fee_fields_zero row"
    if "transform tmsg toLowerCase feesMap p = Inr row"
    using that transform_absent by blast
  show ?thesis
    apply (intro conjI impI)
    subgoal using a by blast
    subgoal using b by blast
    subgoal using c by blast
    subgoal using transform_fields(2) by blast
    subgoal using transform_fields(2) by blast
    subgoal using transform_fields(2) by blast
    subgoal using transform_fields(2) by blast
    subgoal using transform_fields(2) by blast
    subgoal using transform_fields(2) by blast
    subgoal using transform_fields(2) by blast
    subgoal using transform_fields(2) by blast
    subgoal using transform_fields(2) by blast
    subgoal using transform_fields(2) by blast
    subgoal using transform_fields(2) by blast
    subgoal using transform_fields(2) by blast
    subgoal using transform_fields(2) by blast
    subgoal using transform_fields(2) by blast
    subgoal using transform_fields(2) by blast
    subgoal using transform_fields(2) by blast
    subgoal using transform_fields(2) by blast
    subgoal by (rule num_or_None)
    subgoal by (rule num_or_Some)
    done
qed

text \<open>
  On ASCII names: \<open>Rocket Pool\<close> has no fee record and gets zeros, \<open>Lido\<close> finds the record
  entered as \<open>LIDO\<close>. With the case mapping of the Latin-1 letters, a name that starts
  with the code unit \<open>0xC9\<close> (E acute) finds the record whose name starts with \<open>0xE9\<close>
  (e acute) and takes its fees.
\<close>

theorem missing_fees_default_to_zero_witness:
  "merge_data (\<lambda>_. []) ascii_lower
     [sample_raw_protocol ''Lido'' ''Liquid Staking'' (Some 100),
      sample_raw_protocol ''Aave'' ''Lending'' (Some 50),
      sample_raw_protocol ''Rocket Pool'' ''Liquid Staking'' None]
     (Some [sample_raw_fees ''LIDO'' 7])
     = Inr [sample_row ''Lido'' 100 7, sample_row ''Rocket Pool'' 0 0] \<and>
   Some (ascii_lower ''Rocket Pool'') \<notin> set (fee_names ascii_lower [sample_raw_fees ''LIDO'' 7]) \<and>
   all_fee_fields_zero (sample_row ''Rocket Pool'' 0 0) \<and>
   tvl (sample_row ''Rocket Pool'' 0 0) = 0 \<and>
   fees_24h (fees (sample_row ''Lido'' 100 7)) = 7 \<and>
   Some (latin1_lower (CHR 0xC9 # ''ther''))
     \<in> set (fee_names latin1_lower [sample_raw_fees (CHR 0xE9 # ''THER'') 7]) \<and>
   merge_data (\<lambda>_. []) latin1_lower
     [sample_raw_protocol (CHR 0xC9 # ''ther'') ''Liquid Staking'' (Some 100)]
     (Some [sample_raw_fees (CHR 0xE9 # ''THER'') 7])
     = Inr [sample_row (CHR 0xC9 # ''ther'') 100 7]"
proof -
  let ?pd = "[sample_raw_protocol ''Lido'' ''Liquid Staking'' (Some 100),
      sample_raw_protocol ''Aave'' ''Lending'' (Some 50),
      sample_raw_protocol ''Rocket Pool'' ''Liquid Staking'' None]"
  let ?fs = "[sample_raw_fees ''LIDO'' 7]"
  let ?rows = "[sample_row ''Lido'' 100 7, sample_row ''Rocket Pool'' 0 0]"
  have m: "merge_data (\<lambda>_. []) ascii_lower ?pd (Some ?fs) = Inr ?rows"
    by (simp add: merge_data_def transform_def new_Map_def sample_raw_protocol_def
        sample_raw_fees_def sample_row_def empty_fees_def lower_eval num_or_def str_or_def Let_def)
  have n: "Some (ascii_lower ''Rocket Pool'') \<notin> set (fee_names ascii_lower ?fs)"
    by (simp add: fee_names_def sample_raw_fees_def lower_eval)
  have nm: "name (sample_row ''Rocket Pool'' 0 0) = ''Rocket Pool''"
    by (simp add: sample_row_def)
  have cat: "filter (\<lambda>p. rp_category p = Some ''Liquid Staking'') ?pd =
      [sample_raw_protocol ''Lido'' ''Liquid Staking'' (Some 100),
       sample_raw_protocol ''Rocket Pool'' ''Liquid Staking'' None]"
    by (simp add: sample_raw_protocol_def)
  have tv: "rp_tvl (sample_raw_protocol ''Rocket Pool'' ''Liquid Staking'' None) = None"
    by (simp add: sample_raw_protocol_def)
  from missing_fees_default_to_zero [of "\<lambda>_. []" ascii_lower ?pd ?fs ?rows, THEN conjunct1] m
  have "list_all2
        (\<lambda>p row. rp_name p = Some (name row) \<and>
           (Some (ascii_lower (name row)) \<notin> set (fee_names ascii_lower ?fs) \<longrightarrow> all_fee_fields_zero row) \<and>
           tvl row = num_or (rp_tvl p) 0 \<and> tvlPrevDay row = num_or (rp_tvlPrevDay p) 0 \<and>
           tvlPrevMonth row = num_or (rp_tvlPrevMonth p) 0 \<and> mcap row = num_or (rp_mcap p) 0)
        (filter (\<lambda>p. rp_category p = Some ''Liquid Staking'') ?pd) ?rows"
    by blast
  then have "all_fee_fields_zero (sample_row ''Rocket Pool'' 0 0)"
    and "tvl (sample_row ''Rocket Pool'' 0 0) = num_or None 0"
    unfolding cat using n by (simp_all add: nm tv)
  moreover have "fees_24h (fees (sample_row ''Lido'' 100 7)) = 7"
    by (simp add: sample_row_def)
  ultimately have ascii: "merge_data (\<lambda>_. []) ascii_lower ?pd (Some ?fs) = Inr ?rows \<and>
      Some (ascii_lower ''Rocket Pool'') \<notin> set (fee_names ascii_lower ?fs) \<and>
      all_fee_fields_zero (sample_row ''Rocket Pool'' 0 0) \<and>
      tvl (sample_row ''Rocket Pool'' 0 0) = 0 \<and>
      fees_24h (fees (sample_row ''Lido'' 100 7)) = 7"
    using m n by (simp add: num_or_None)
  have found: "Some (latin1_lower (CHR 0xC9 # ''ther''))
      \<in> set (fee_names latin1_lower [sample_raw_fees (CHR 0xE9 # ''THER'') 7])"
    by (simp add: fee_names_def sample_raw_fees_def latin1_test)
  have merged: "merge_data (\<lambda>_. []) latin1_lower
      [sample_raw_protocol (CHR 0xC9 # ''ther'') ''Liquid Staking'' (Some 100)]
      (Some [sample_raw_fees (CHR 0xE9 # ''THER'') 7])
      = Inr [sample_row (CHR 0xC9 # ''ther'') 100 7]"
    by (simp add: merge_data_def transform_def new_Map_def sample_raw_protocol_def
        sample_raw_fees_def sample_row_def empty_fees_def latin1_eval num_or_def str_or_def Let_def)
  show ?thesis
    using ascii found merged by blast
qed

section \<open>Properties of the fetch cycle\<close>

lemma fetch_failed:
  "try_block tmsg toLowerCase settled = Inl err \<Longrightarrow>
   fetchProtocolsData tmsg toLowerCase settled s = s\<lparr>error := Some (catch_message err), loading := False\<rparr>"
  by (simp add: fetchProtocolsData_def)

lemma fetch_succeeded:
  "try_block tmsg toLowerCase settled = Inr rows \<Longrightarrow>
   fetchProtocolsData tmsg toLowerCase settled s = s\<lparr>protocols := rows, loading := False\<rparr>"
  by (simp add: fetchProtocolsData_def)

lemma try_block_not_ok:
  "\<not> ok protocolsResponse \<or> \<not> ok feesResponse \<Longrightarrow>
   try_block tmsg toLowerCase (Inr (protocolsResponse, feesResponse)) = Inl (ErrorObject failed_message)"
  by (auto simp: try_block_def)

lemma try_block_stages:
  "try_block tmsg toLowerCase (Inl e) = Inl e"
  "ok protocolsResponse \<Longrightarrow> ok feesResponse \<Longrightarrow> json protocolsResponse = Inl e \<Longrightarrow>
     try_block tmsg toLowerCase (Inr (protocolsResponse, feesResponse)) = Inl e"
  "ok protocolsResponse \<Longrightarrow> ok feesResponse \<Longrightarrow> json protocolsResponse = Inr protocolsData \<Longrightarrow>
     json feesResponse = Inl e \<Longrightarrow>
     try_block tmsg toLowerCase (Inr (protocolsResponse, feesResponse)) = Inl e"
  "ok protocolsResponse \<Longrightarrow> ok feesResponse \<Longrightarrow> json protocolsResponse = Inr protocolsData \<Longrightarrow>
     json feesResponse = Inr feesProtocols \<Longrightarrow>
     try_block tmsg toLowerCase (Inr (protocolsResponse, feesResponse)) = merge_data tmsg toLowerCase protocolsData feesProtocols"
  by (simp_all add: try_block_def)

lemma catch_message_cases:
  "catch_message (ErrorObject m) = m" "catch_message NonError = failed_message"
  by (simp_all add: catch_message_def)

text \<open>
  Claim C2. If either response is not ok, or anything is thrown while fetching,
  decoding or merging, the page enters the error state: the error is set to the message
  of the thrown \<open>Error\<close>, or to \<open>Failed to fetch protocol data\<close> when the thrown value
  is not an \<open>Error\<close>, loading ends, and the protocol list is left as it was, the empty
  list of the mount. A response that is not ok gives exactly the fixed message. The list
  is only ever set to the complete result of a cycle in which nothing failed.
\<close>

theorem failed_cycle_enters_error_state:
  "(try_block tmsg toLowerCase settled = Inl err \<longrightarrow>
      fetchProtocolsData tmsg toLowerCase settled s = s\<lparr>error := Some (catch_message err), loading := False\<rparr> \<and>
      protocols (fetchProtocolsData tmsg toLowerCase settled s) = protocols s \<and>
      protocols (fetchProtocolsData tmsg toLowerCase settled initial_state) = [] \<and>
      error (fetchProtocolsData tmsg toLowerCase settled initial_state) = Some (catch_message err) \<and>
      \<not> loading (fetchProtocolsData tmsg toLowerCase settled initial_state) \<and>
      (catch_message err \<noteq> [] \<longrightarrow>
         render_page (fetchProtocolsData tmsg toLowerCase settled initial_state) = ErrorView (catch_message err))) \<and>
   catch_message (ErrorObject m) = m \<and> catch_message NonError = failed_message \<and>
   failed_message = ''Failed to fetch protocol data'' \<and>
   (\<not> ok protocolsResponse \<or> \<not> ok feesResponse \<longrightarrow>
      try_block tmsg toLowerCase (Inr (protocolsResponse, feesResponse)) = Inl (ErrorObject failed_message) \<and>
      fetchProtocolsData tmsg toLowerCase (Inr (protocolsResponse, feesResponse)) initial_state =
        initial_state\<lparr>error := Some failed_message, loading := False\<rparr> \<and>
      render_page (fetchProtocolsData tmsg toLowerCase (Inr (protocolsResponse, feesResponse)) initial_state) =
        ErrorView failed_message) \<and>
   try_block tmsg toLowerCase (Inl e) = Inl e \<and>
   (ok protocolsResponse \<and> ok feesResponse \<and> json protocolsResponse = Inl e \<longrightarrow>
      try_block tmsg toLowerCase (Inr (protocolsResponse, feesResponse)) = Inl e) \<and>
   (ok protocolsResponse \<and> ok feesResponse \<and> json protocolsResponse = Inr protocolsData \<and>
    json feesResponse = Inl e \<longrightarrow>
      try_block tmsg toLowerCase (Inr (protocolsResponse, feesResponse)) = Inl e) \<and>
   (ok protocolsResponse \<and> ok feesResponse \<and> json protocolsResponse = Inr protocolsData \<and>
    json feesResponse = Inr feesProtocols \<longrightarrow>
      try_block tmsg toLowerCase (Inr (protocolsResponse, feesResponse)) =
        merge_data tmsg toLowerCase protocolsData feesProtocols) \<and>
   (protocols (fetchProtocolsData tmsg toLowerCase settled initial_state) \<noteq> [] \<longrightarrow>
      try_block tmsg toLowerCase settled = Inr (protocols (fetchProtocolsData tmsg toLowerCase settled initial_state)))"
proof -
  have fail: "fetchProtocolsData tmsg toLowerCase settled s = s\<lparr>error := Some (catch_message err), loading := False\<rparr> \<and>
      protocols (fetchProtocolsData tmsg toLowerCase settled s) = protocols s \<and>
      protocols (fetchProtocolsData tmsg toLowerCase settled initial_state) = [] \<and>
      error (fetchProtocolsData tmsg toLowerCase settled initial_state) = Some (catch_message err) \<and>
      \<not> loading (fetchProtocolsData tmsg toLowerCase settled initial_state) \<and>
      (catch_message err \<noteq> [] \<longrightarrow>
         render_page (fetchProtocolsData tmsg toLowerCase settled initial_state) = ErrorView (catch_message err))"
    if "try_block tmsg toLowerCase settled = Inl err"
    by (simp add: fetch_failed [OF that] initial_state_def render_page_def)
  have fm: "failed_message \<noteq> []"
    by (simp add: failed_message_def)
  have notok: "try_block tmsg toLowerCase (Inr (protocolsResponse, feesResponse)) = Inl (ErrorObject failed_message) \<and>
      fetchProtocolsData tmsg toLowerCase (Inr (protocolsResponse, feesResponse)) initial_state =
        initial_state\<lparr>error := Some failed_message, loading := False\<rparr> \<and>
      render_page (fetchProtocolsData tmsg toLowerCase (Inr (protocolsResponse, feesResponse)) initial_state) =
        ErrorView failed_message"
    if "\<not> ok protocolsResponse \<or> \<not> ok feesResponse"
    using fm
    by (simp add: fetch_failed [OF try_block_not_ok [OF that]] try_block_not_ok [OF that]
        catch_message_cases initial_state_def render_page_def)
  have only: "try_block tmsg toLowerCase settled = Inr (protocols (fetchProtocolsData tmsg toLowerCase settled initial_state))"
    if "protocols (fetchProtocolsData tmsg toLowerCase settled initial_state) \<noteq> []"
  proof (cases "try_block tmsg toLowerCase settled")
    case (Inl err)
    with that show ?thesis
      by (simp add: fetch_failed initial_state_def)
  next
    case (Inr rows)
    then show ?thesis
      by (simp add: fetch_succeeded)
  qed
  show ?thesis
    apply (intro conjI impI)
    subgoal using fail by blast
    subgoal using fail by blast
    subgoal using fail by blast
    subgoal using fail by blast
    subgoal using fail by blast
    subgoal using fail by blast
    subgoal by (rule catch_message_cases)
    subgoal by (rule catch_message_cases)
    subgoal by (rule failed_message_def)
    subgoal using notok by blast
    subgoal using notok by blast
    subgoal using notok by blast
    subgoal by (rule try_block_stages)
    subgoal using try_block_stages(2) by blast
    subgoal using try_block_stages(3) by blast
    subgoal using try_block_stages(4) by blast
    subgoal using only by blast
    done
qed


theorem failed_cycle_enters_error_state_witness:
  "\<not> ok (\<lparr>ok = False, json = Inr []\<rparr> :: raw_protocol list response) \<and>
   fetchProtocolsData (\<lambda>m. ''no '' @ m) ascii_lower
     (Inr (\<lparr>ok = False, json = Inr []\<rparr>, \<lparr>ok = True, json = Inr (Some [])\<rparr>)) initial_state
     = initial_state\<lparr>error := Some ''Failed to fetch protocol data'', loading := False\<rparr> \<and>
   try_block (\<lambda>m. ''no '' @ m) ascii_lower (Inl (ErrorObject ''Failed to fetch'')) = Inl (ErrorObject ''Failed to fetch'') \<and>
   fetchProtocolsData (\<lambda>m. ''no '' @ m) ascii_lower (Inl (ErrorObject ''Failed to fetch'')) initial_state
     = initial_state\<lparr>error := Some ''Failed to fetch'', loading := False\<rparr> \<and>
   render_page (fetchProtocolsData (\<lambda>m. ''no '' @ m) ascii_lower (Inl (ErrorObject ''Failed to fetch'')) initial_state)
     = ErrorView ''Failed to fetch'' \<and>
   fetchProtocolsData (\<lambda>m. ''no '' @ m) ascii_lower (Inl NonError) initial_state
     = initial_state\<lparr>error := Some ''Failed to fetch protocol data'', loading := False\<rparr> \<and>
   try_block (\<lambda>m. ''no '' @ m) ascii_lower
     (Inr (\<lparr>ok = True, json = Inr []\<rparr>, \<lparr>ok = True, json = Inr None\<rparr>))
     = Inl (ErrorObject ''no map'') \<and>
   fetchProtocolsData (\<lambda>m. ''no '' @ m) ascii_lower
     (Inr (\<lparr>ok = True, json = Inr []\<rparr>, \<lparr>ok = True, json = Inr None\<rparr>)) initial_state
     = initial_state\<lparr>error := Some ''no map'', loading := False\<rparr> \<and>
   try_block (\<lambda>m. ''no '' @ m) ascii_lower
     (Inr (\<lparr>ok = True, json = Inl (ErrorObject ''Unexpected token'')\<rparr>, \<lparr>ok = True, json = Inr None\<rparr>))
     = Inl (ErrorObject ''Unexpected token'')"
proof -
  let ?tmsg = "\<lambda>m. ''no '' @ m"
  let ?bad = "\<lparr>ok = False, json = Inr []\<rparr> :: raw_protocol list response"
  let ?good = "\<lparr>ok = True, json = Inr []\<rparr> :: raw_protocol list response"
  let ?fees = "\<lparr>ok = True, json = Inr (Some [])\<rparr> :: raw_fees list option response"
  let ?nofees = "\<lparr>ok = True, json = Inr None\<rparr> :: raw_fees list option response"
  let ?garbled = "\<lparr>ok = True, json = Inl (ErrorObject ''Unexpected token'')\<rparr> :: raw_protocol list response"
  let ?net = "Inl (ErrorObject ''Failed to fetch'')
    :: thrown + (raw_protocol list response \<times> raw_fees list option response)"
  let ?non = "Inl NonError :: thrown + (raw_protocol list response \<times> raw_fees list option response)"
  note t = failed_cycle_enters_error_state
  have a: "fetchProtocolsData ?tmsg ascii_lower (Inr (?bad, ?fees)) initial_state
      = initial_state\<lparr>error := Some ''Failed to fetch protocol data'', loading := False\<rparr>"
    using t [of ?tmsg ascii_lower ?net NonError initial_state "[]" ?bad ?fees NonError "[]" None]
    by (simp add: failed_message_def)
  have b: "try_block ?tmsg ascii_lower ?net = Inl (ErrorObject ''Failed to fetch'')"
    using t [of ?tmsg ascii_lower ?net NonError initial_state "[]" ?bad ?fees "ErrorObject ''Failed to fetch''" "[]" None]
    by blast
  from t [of ?tmsg ascii_lower ?net "ErrorObject ''Failed to fetch''" initial_state "[]" ?bad ?fees NonError "[]" None,
      THEN conjunct1] b
  have c: "fetchProtocolsData ?tmsg ascii_lower ?net initial_state
      = initial_state\<lparr>error := Some ''Failed to fetch'', loading := False\<rparr>"
    "render_page (fetchProtocolsData ?tmsg ascii_lower ?net initial_state) = ErrorView ''Failed to fetch''"
    by (auto simp: catch_message_cases)
  have d0: "try_block ?tmsg ascii_lower ?non = Inl NonError"
    using t [of ?tmsg ascii_lower ?net NonError initial_state "[]" ?bad ?fees NonError "[]" None]
    by blast
  from t [of ?tmsg ascii_lower ?non NonError initial_state "[]" ?bad ?fees NonError "[]" None, THEN conjunct1] d0
  have d: "fetchProtocolsData ?tmsg ascii_lower ?non initial_state
      = initial_state\<lparr>error := Some ''Failed to fetch protocol data'', loading := False\<rparr>"
    by (auto simp: catch_message_cases failed_message_def)
  have e0: "try_block ?tmsg ascii_lower (Inr (?good, ?nofees)) = Inl (ErrorObject ''no map'')"
    using t [of ?tmsg ascii_lower ?net NonError initial_state "[]" ?good ?nofees NonError "[]" None]
    by (simp add: merge_data_def)
  from t [of ?tmsg ascii_lower "Inr (?good, ?nofees)" "ErrorObject ''no map''" initial_state "[]" ?bad ?fees NonError "[]" None,
      THEN conjunct1] e0
  have e: "fetchProtocolsData ?tmsg ascii_lower (Inr (?good, ?nofees)) initial_state
      = initial_state\<lparr>error := Some ''no map'', loading := False\<rparr>"
    by (auto simp: catch_message_cases)
  have f: "try_block ?tmsg ascii_lower (Inr (?garbled, ?nofees)) = Inl (ErrorObject ''Unexpected token'')"
    using t [of ?tmsg ascii_lower ?net NonError initial_state "[]" ?garbled ?nofees "ErrorObject ''Unexpected token''" "[]" None]
    by simp
  show ?thesis
    using a b c d e0 e f by simp
qed

end
